theory Spec2Isabelle
  imports Main "HOL-Library.Char_ord" "HOL-Library.List_Lexorder" "HOL-Library.Sublist"
begin

section \<open>Python strings\<close>

text \<open>
  A Python \<open>str\<close> is modelled as a \<open>string\<close> whose characters are the code points
  0 to 255. On this range \<open>str.isspace\<close>, \<open>str.lower\<close> and the regular expression class
  \<open>\s\<close> behave as defined below (the white space of Python is the code points 9 to 13,
  28 to 32, 133 and 160; the upper-case letters are A to Z and the code points 192 to 222
  except 215, each 32 below its lower-case letter).
\<close>

definition codepoint :: "char \<Rightarrow> nat" where
  "codepoint c = of_char c"

definition isspace :: "char \<Rightarrow> bool" where
  "isspace c = (let n = codepoint c in
     (9 \<le> n \<and> n \<le> 13) \<or> (28 \<le> n \<and> n \<le> 32) \<or> n = 133 \<or> n = 160)"

definition is_upper :: "char \<Rightarrow> bool" where
  "is_upper c = (let n = codepoint c in
     (65 \<le> n \<and> n \<le> 90) \<or> (192 \<le> n \<and> n \<le> 222 \<and> n \<noteq> 215))"

definition lower_char :: "char \<Rightarrow> char" where
  "lower_char c = (if is_upper c then char_of (codepoint c + 32) else c)"

definition lower :: "string \<Rightarrow> string" where
  "lower s = map lower_char s"

text \<open>\<open>s.lstrip(chars)\<close>, \<open>s.rstrip(chars)\<close> and \<open>s.strip(chars)\<close>, the set of characters
  given as a predicate.\<close>

definition lstrip_by :: "(char \<Rightarrow> bool) \<Rightarrow> string \<Rightarrow> string" where
  "lstrip_by p s = dropWhile p s"

definition rstrip_by :: "(char \<Rightarrow> bool) \<Rightarrow> string \<Rightarrow> string" where
  "rstrip_by p s = rev (dropWhile p (rev s))"

definition strip_by :: "(char \<Rightarrow> bool) \<Rightarrow> string \<Rightarrow> string" where
  "strip_by p s = rstrip_by p (lstrip_by p s)"

definition strip :: "string \<Rightarrow> string" where
  "strip s = strip_by isspace s"

definition az09 :: "char \<Rightarrow> bool" where
  "az09 c = (let n = codepoint c in (97 \<le> n \<and> n \<le> 122) \<or> (48 \<le> n \<and> n \<le> 57))"

abbreviation non_az09 :: "char \<Rightarrow> bool" where
  "non_az09 \<equiv> (\<lambda>c. \<not> az09 c)"

abbreviation is_sep :: "char \<Rightarrow> bool" where
  "is_sep \<equiv> (\<lambda>c. c = CHR ''-'')"

abbreviation is_at :: "char \<Rightarrow> bool" where
  "is_at \<equiv> (\<lambda>c. c = CHR ''@'')"

text \<open>
  \<open>re.sub(r"[p]+", rep, s)\<close> for a character class \<open>p\<close>: every maximal run of characters
  of the class is replaced by \<open>rep\<close>.
\<close>

function re_sub_runs :: "(char \<Rightarrow> bool) \<Rightarrow> string \<Rightarrow> string \<Rightarrow> string" where
  "re_sub_runs p rep [] = []"
| "re_sub_runs p rep (c # cs) =
     (if p c then rep @ re_sub_runs p rep (dropWhile p cs) else c # re_sub_runs p rep cs)"
  by pat_completeness auto
termination
  by (relation "measure (\<lambda>(p, rep, s). length s)")
     (auto simp: le_imp_less_Suc length_dropWhile_le)

section \<open>manage\_groups.py: slugify\<close>

definition slugify :: "string \<Rightarrow> string" where
  "slugify name =
     (let s = lower (strip name);
          s = re_sub_runs non_az09 ''-'' s;
          s = strip_by is_sep (re_sub_runs is_sep ''-'' s)
      in if s = [] then ''team'' else s)"

text \<open>The shape of a team slug: non-empty, only a to z, 0 to 9 and the separator, no
  separator first or last, no two separators in a row.\<close>

fun no_adjacent_sep :: "string \<Rightarrow> bool" where
  "no_adjacent_sep (a # b # cs) =
     (\<not> (a = CHR ''-'' \<and> b = CHR ''-'') \<and> no_adjacent_sep (b # cs))"
| "no_adjacent_sep cs = True"

definition slug_wf :: "string \<Rightarrow> bool" where
  "slug_wf s = (s \<noteq> [] \<and> list_all (\<lambda>c. az09 c \<or> c = CHR ''-'') s \<and>
     hd s \<noteq> CHR ''-'' \<and> last s \<noteq> CHR ''-'' \<and> no_adjacent_sep s)"

section \<open>Reading the roster file\<close>

subsection \<open>The trailing-comma pass\<close>

text \<open>
  \<open>re.sub(r',\s*([}\]])', r'\1', raw)\<close>, the first statement of both \<open>load_students\<close>:
  scanning from the left, a comma whose next character after any white space is a closing
  brace or bracket is deleted together with that white space, and the scan goes on after
  the brace or bracket.
\<close>

definition closes :: "char \<Rightarrow> bool" where
  "closes c = (c = CHR ''}'' \<or> c = CHR '']'')"

function tolerate_trailing_commas :: "string \<Rightarrow> string" where
  "tolerate_trailing_commas [] = []"
| "tolerate_trailing_commas (c # cs) =
     (if c = CHR '','' then
        (case dropWhile isspace cs of
           [] \<Rightarrow> c # tolerate_trailing_commas cs
         | d # ds \<Rightarrow> if closes d then d # tolerate_trailing_commas ds
                    else c # tolerate_trailing_commas cs)
      else c # tolerate_trailing_commas cs)"
  by pat_completeness auto
termination
proof (relation "measure length")
  fix c :: char and cs d ds
  assume "dropWhile isspace cs = d # ds"
  then have "length (d # ds) \<le> length cs"
    by (metis length_dropWhile_le)
  then show "(ds, c # cs) \<in> measure length" by simp
qed auto

subsection \<open>json.loads\<close>

text \<open>
  The value \<open>json.loads\<close> returns. An integer literal is a Python \<open>int\<close>; a literal with
  a fraction or an exponent is a \<open>float\<close>, kept here as the decimal it denotes
  (\<open>JFloat m e\<close> is \<open>m\<close> times ten to the \<open>e\<close>); a JSON object is a \<open>dict\<close>, kept as its
  members in source order (a later member with the same key replaces the earlier one).
\<close>

datatype json =
    JNull
  | JBool bool
  | JInt int
  | JFloat int int
  | JNaN
  | JInf bool
  | JStr string
  | JArr "json list"
  | JObj "(string \<times> json) list"

text \<open>
  How a run ends when it does not end normally: \<open>sys.exit(n)\<close>, or an exception nobody
  catches. \<open>Unmodelled\<close> marks an input outside this model (an escape for a code point
  above 255, or nesting deeper than the parser's fuel): nothing is claimed there.
\<close>

datatype failure = Exit int | JSONDecodeError | TypeError | AttributeError | Unmodelled

definition json_ws :: "char \<Rightarrow> bool" where
  "json_ws c = (c = CHR '' '' \<or> c = CHR 0x09 \<or> c = CHR 0x0A \<or> c = CHR 0x0D)"

definition skip_ws :: "string \<Rightarrow> string" where
  "skip_ws s = dropWhile json_ws s"

definition is_digit :: "char \<Rightarrow> bool" where
  "is_digit c = (48 \<le> codepoint c \<and> codepoint c \<le> 57)"

definition digits_val :: "string \<Rightarrow> nat" where
  "digits_val ds = foldl (\<lambda>n d. 10 * n + (codepoint d - 48)) 0 ds"

definition hex_val :: "char \<Rightarrow> nat option" where
  "hex_val c = (let n = codepoint c in
     if 48 \<le> n \<and> n \<le> 57 then Some (n - 48)
     else if 97 \<le> n \<and> n \<le> 102 then Some (n - 87)
     else if 65 \<le> n \<and> n \<le> 70 then Some (n - 55)
     else None)"

definition unescape :: "char \<Rightarrow> char option" where
  "unescape e =
     (if e = CHR 0x22 \<or> e = CHR 0x5C \<or> e = CHR ''/'' then Some e
      else if e = CHR ''b'' then Some (CHR 0x08)
      else if e = CHR ''f'' then Some (CHR 0x0C)
      else if e = CHR ''n'' then Some (CHR 0x0A)
      else if e = CHR ''r'' then Some (CHR 0x0D)
      else if e = CHR ''t'' then Some (CHR 0x09)
      else None)"

text \<open>The body of a string literal, after its opening quote (strict mode: a control
  character in the literal is an error).\<close>

fun scanstring :: "string \<Rightarrow> string \<Rightarrow> failure + (string \<times> string)" where
  "scanstring acc [] = Inl JSONDecodeError"
| "scanstring acc [c] =
     (if c = CHR 0x22 then Inr (rev acc, [])
      else Inl JSONDecodeError)"
| "scanstring acc (c # e # es) =
     (if c = CHR 0x22 then Inr (rev acc, e # es)
      else if c = CHR 0x5C then
        (if e = CHR ''u'' then
           (case es of
              h1 # h2 # h3 # h4 # rest \<Rightarrow>
                (case (hex_val h1, hex_val h2, hex_val h3, hex_val h4) of
                   (Some a, Some b, Some c', Some d) \<Rightarrow>
                     (let n = ((a * 16 + b) * 16 + c') * 16 + d
                      in if n < 256 then scanstring (char_of n # acc) rest
                         else Inl Unmodelled)
                 | _ \<Rightarrow> Inl JSONDecodeError)
            | _ \<Rightarrow> Inl JSONDecodeError)
         else (case unescape e of
                 Some x \<Rightarrow> scanstring (x # acc) es
               | None \<Rightarrow> Inl JSONDecodeError))
      else if codepoint c < 32 then Inl JSONDecodeError
      else scanstring (c # acc) (e # es))"

text \<open>A number: \<open>-?(0|[1-9][0-9]*)(\.[0-9]+)?([eE][-+]?[0-9]+)?\<close>, the longest match.\<close>

definition scan_int_part :: "string \<Rightarrow> (string \<times> string) option" where
  "scan_int_part s =
     (case s of
        [] \<Rightarrow> None
      | d # t \<Rightarrow>
          if d = CHR ''0'' then Some ([d], t)
          else if is_digit d then Some (d # takeWhile is_digit t, dropWhile is_digit t)
          else None)"

definition scan_frac :: "string \<Rightarrow> string \<times> string" where
  "scan_frac s =
     (case s of
        p # f # t \<Rightarrow>
          if p = CHR ''.'' \<and> is_digit f then (f # takeWhile is_digit t, dropWhile is_digit t)
          else ([], s)
      | _ \<Rightarrow> ([], s))"

definition scan_exp :: "string \<Rightarrow> int option \<times> string" where
  "scan_exp s =
     (case s of
        [] \<Rightarrow> (None, s)
      | e # t \<Rightarrow>
          if e = CHR ''e'' \<or> e = CHR ''E'' then
            (case t of
               [] \<Rightarrow> (None, s)
             | g # u \<Rightarrow>
                 if g = CHR ''+'' \<or> g = CHR ''-'' then
                   (if u \<noteq> [] \<and> is_digit (hd u)
                    then (Some ((if g = CHR ''-'' then - 1 else 1)
                                  * int (digits_val (takeWhile is_digit u))),
                          dropWhile is_digit u)
                    else (None, s))
                 else if is_digit g
                   then (Some (int (digits_val (takeWhile is_digit t))), dropWhile is_digit t)
                 else (None, s))
          else (None, s))"

definition parse_number :: "string \<Rightarrow> (json \<times> string) option" where
  "parse_number s =
     (let neg = (s \<noteq> [] \<and> hd s = CHR ''-'');
          sgn = (if neg then - 1 else 1)
      in case scan_int_part (if neg then tl s else s) of
           None \<Rightarrow> None
         | Some (ip, s2) \<Rightarrow>
             (case scan_frac s2 of (fr, s3) \<Rightarrow>
                (case scan_exp s3 of (ex, s4) \<Rightarrow>
                   if fr = [] \<and> ex = None then Some (JInt (sgn * int (digits_val ip)), s4)
                   else Some (JFloat (sgn * int (digits_val (ip @ fr)))
                                ((case ex of None \<Rightarrow> 0 | Some k \<Rightarrow> k) - int (length fr)),
                              s4))))"

definition starts_with :: "string \<Rightarrow> string \<Rightarrow> bool" where
  "starts_with p s = (take (length p) s = p)"

text \<open>
  The scanner (\<open>scan_once\<close> with its array and object loops). The first argument is fuel:
  every nested value and every further member of an array or object takes one unit.
\<close>

fun parse_value :: "nat \<Rightarrow> string \<Rightarrow> failure + (json \<times> string)"
  and parse_elems :: "nat \<Rightarrow> json list \<Rightarrow> string \<Rightarrow> failure + (json \<times> string)"
  and parse_pairs :: "nat \<Rightarrow> (string \<times> json) list \<Rightarrow> string \<Rightarrow> failure + (json \<times> string)"
where
  "parse_value 0 s = Inl Unmodelled"
| "parse_value (Suc n) [] = Inl JSONDecodeError"
| "parse_value (Suc n) (c # cs) =
     (if c = CHR 0x22 then
        (case scanstring [] cs of Inl e \<Rightarrow> Inl e | Inr (x, r) \<Rightarrow> Inr (JStr x, r))
      else if c = CHR ''{'' then
        (if skip_ws cs \<noteq> [] \<and> hd (skip_ws cs) = CHR ''}'' then Inr (JObj [], tl (skip_ws cs))
         else parse_pairs n [] (skip_ws cs))
      else if c = CHR ''['' then
        (if skip_ws cs \<noteq> [] \<and> hd (skip_ws cs) = CHR '']'' then Inr (JArr [], tl (skip_ws cs))
         else parse_elems n [] (skip_ws cs))
      else if starts_with ''null'' (c # cs) then Inr (JNull, drop 4 (c # cs))
      else if starts_with ''true'' (c # cs) then Inr (JBool True, drop 4 (c # cs))
      else if starts_with ''false'' (c # cs) then Inr (JBool False, drop 5 (c # cs))
      else if starts_with ''NaN'' (c # cs) then Inr (JNaN, drop 3 (c # cs))
      else if starts_with ''Infinity'' (c # cs) then Inr (JInf False, drop 8 (c # cs))
      else if starts_with ''-Infinity'' (c # cs) then Inr (JInf True, drop 9 (c # cs))
      else (case parse_number (c # cs) of None \<Rightarrow> Inl JSONDecodeError | Some r \<Rightarrow> Inr r))"
| "parse_elems 0 acc s = Inl Unmodelled"
| "parse_elems (Suc n) acc s =
     (case parse_value n s of
        Inl e \<Rightarrow> Inl e
      | Inr (v, r) \<Rightarrow>
          (case skip_ws r of
             [] \<Rightarrow> Inl JSONDecodeError
           | d # r' \<Rightarrow>
               if d = CHR '']'' then Inr (JArr (rev (v # acc)), r')
               else if d = CHR '','' then parse_elems n (v # acc) (skip_ws r')
               else Inl JSONDecodeError))"
| "parse_pairs 0 acc s = Inl Unmodelled"
| "parse_pairs (Suc n) acc [] = Inl JSONDecodeError"
| "parse_pairs (Suc n) acc (q # s) =
     (if q \<noteq> CHR 0x22 then Inl JSONDecodeError
      else
        (case scanstring [] s of
           Inl e \<Rightarrow> Inl e
         | Inr (k, r) \<Rightarrow>
             (case skip_ws r of
                [] \<Rightarrow> Inl JSONDecodeError
              | colon # r1 \<Rightarrow>
                  (if colon \<noteq> CHR '':'' then Inl JSONDecodeError
                   else
                     (case parse_value n (skip_ws r1) of
                        Inl e \<Rightarrow> Inl e
                      | Inr (v, r2) \<Rightarrow>
                          (case skip_ws r2 of
                             [] \<Rightarrow> Inl JSONDecodeError
                           | d # r3 \<Rightarrow>
                               (if d = CHR ''}'' then Inr (JObj (rev ((k, v) # acc)), r3)
                                else if d = CHR '','' then
                                  parse_pairs n ((k, v) # acc) (skip_ws r3)
                                else Inl JSONDecodeError)))))))"

definition json_loads :: "string \<Rightarrow> failure + json" where
  "json_loads s =
     (case parse_value (2 * length s + 2) (skip_ws s) of
        Inl e \<Rightarrow> Inl e
      | Inr (v, r) \<Rightarrow> if skip_ws r = [] then Inr v else Inl JSONDecodeError)"

subsection \<open>Python values in a condition\<close>

text \<open>
  Truth of a value in \<open>if v\<close> and \<open>v or ""\<close>. A float is false when it is zero: a decimal
  rounds to zero when it is at most half the least positive double, two to the -1075.
\<close>

definition float_nonzero :: "int \<Rightarrow> int \<Rightarrow> bool" where
  "float_nonzero m e = (m \<noteq> 0 \<and> (0 \<le> e \<or> 10 ^ nat (- e) < \<bar>m\<bar> * 2 ^ 1075))"

fun truthy :: "json \<Rightarrow> bool" where
  "truthy JNull = False"
| "truthy (JBool b) = b"
| "truthy (JInt i) = (i \<noteq> 0)"
| "truthy (JFloat m e) = float_nonzero m e"
| "truthy JNaN = True"
| "truthy (JInf b) = True"
| "truthy (JStr s) = (s \<noteq> [])"
| "truthy (JArr xs) = (xs \<noteq> [])"
| "truthy (JObj kvs) = (kvs \<noteq> [])"

text \<open>\<open>it.get(k)\<close>: the value of the last member with key \<open>k\<close>, \<open>None\<close> when there is none.\<close>

definition dict_get :: "(string \<times> json) list \<Rightarrow> string \<Rightarrow> json" where
  "dict_get kvs k = (case map_of (rev kvs) k of None \<Rightarrow> JNull | Some v \<Rightarrow> v)"

text \<open>\<open>v.strip()\<close>: only a \<open>str\<close> has the method.\<close>

definition strip_value :: "json \<Rightarrow> failure + string" where
  "strip_value v = (case v of JStr s \<Rightarrow> Inr (strip s) | _ \<Rightarrow> Inl AttributeError)"

text \<open>\<open>(v or "").strip()\<close>\<close>

definition or_empty_strip :: "json \<Rightarrow> failure + string" where
  "or_empty_strip v = (if truthy v then strip_value v else Inr [])"

text \<open>\<open>for it in data\<close>: the items of a list, the keys of a dict, the characters of a
  string; any other value is not iterable.\<close>

definition dict_keys :: "(string \<times> json) list \<Rightarrow> string list" where
  "dict_keys kvs = rev (remdups (rev (map fst kvs)))"

definition iterate :: "json \<Rightarrow> failure + json list" where
  "iterate data =
     (case data of
        JArr xs \<Rightarrow> Inr xs
      | JObj kvs \<Rightarrow> Inr (map JStr (dict_keys kvs))
      | JStr s \<Rightarrow> Inr (map (\<lambda>c. JStr [c]) s)
      | _ \<Rightarrow> Inl TypeError)"

section \<open>invite\_to\_org.py: load\_students and the de-duplication\<close>

record student =
  name :: string
  username :: string

text \<open>One pass of the loop body: \<open>None\<close> when the item is skipped.\<close>

definition invite_row :: "json \<Rightarrow> failure + student option" where
  "invite_row it =
     (case it of
        JObj kvs \<Rightarrow>
          if truthy (dict_get kvs ''username'') then
            (case or_empty_strip (dict_get kvs ''name'') of
               Inl e \<Rightarrow> Inl e
             | Inr n \<Rightarrow>
                 (case strip_value (dict_get kvs ''username'') of
                    Inl e \<Rightarrow> Inl e
                  | Inr u \<Rightarrow> Inr (Some \<lparr>name = n, username = lstrip_by is_at u\<rparr>)))
          else Inr None
      | _ \<Rightarrow> Inr None)"

fun invite_rows :: "json list \<Rightarrow> failure + student list" where
  "invite_rows [] = Inr []"
| "invite_rows (it # its) =
     (case invite_row it of
        Inl e \<Rightarrow> Inl e
      | Inr r \<Rightarrow>
          (case invite_rows its of
             Inl e \<Rightarrow> Inl e
           | Inr rows \<Rightarrow> Inr ((case r of None \<Rightarrow> [] | Some x \<Rightarrow> [x]) @ rows)))"

text \<open>The rows the loop collects from the parsed data, before the test for an empty
  roster.\<close>

definition invite_collect :: "json \<Rightarrow> failure + student list" where
  "invite_collect data =
     (case iterate data of Inl e \<Rightarrow> Inl e | Inr its \<Rightarrow> invite_rows its)"

definition load_students_invite :: "string \<Rightarrow> failure + student list" where
  "load_students_invite raw =
     (case json_loads (tolerate_trailing_commas raw) of
        Inl e \<Rightarrow> Inl e
      | Inr data \<Rightarrow>
          (case invite_collect data of
             Inl e \<Rightarrow> Inl e
           | Inr rows \<Rightarrow> if rows = [] then Inl (Exit 1) else Inr rows))"

text \<open>
  \<open>seen=set(); students=[s for s in students if not (s["username"] in seen or
  seen.add(s["username"]))]\<close>
\<close>

fun dedupe :: "string set \<Rightarrow> student list \<Rightarrow> student list" where
  "dedupe seen [] = []"
| "dedupe seen (s # ss) =
     (if username s \<in> seen then dedupe seen ss
      else s # dedupe (insert (username s) seen) ss)"

section \<open>manage\_groups.py: load\_students and the groups\<close>

record grouped = student +
  group :: string

definition group_row :: "json \<Rightarrow> failure + grouped option" where
  "group_row it =
     (case it of
        JObj kvs \<Rightarrow>
          (case or_empty_strip (dict_get kvs ''username'') of
             Inl e \<Rightarrow> Inl e
           | Inr u0 \<Rightarrow>
               (case or_empty_strip (dict_get kvs ''group'') of
                  Inl e \<Rightarrow> Inl e
                | Inr g \<Rightarrow>
                    (case or_empty_strip (dict_get kvs ''name'') of
                       Inl e \<Rightarrow> Inl e
                     | Inr n \<Rightarrow>
                         (let u = lstrip_by is_at u0
                          in if u \<noteq> [] \<and> g \<noteq> []
                             then Inr (Some \<lparr>name = n, username = u, group = g\<rparr>)
                             else Inr None))))
      | _ \<Rightarrow> Inr None)"

fun group_rows :: "json list \<Rightarrow> failure + grouped list" where
  "group_rows [] = Inr []"
| "group_rows (it # its) =
     (case group_row it of
        Inl e \<Rightarrow> Inl e
      | Inr r \<Rightarrow>
          (case group_rows its of
             Inl e \<Rightarrow> Inl e
           | Inr rows \<Rightarrow> Inr ((case r of None \<Rightarrow> [] | Some x \<Rightarrow> [x]) @ rows)))"

definition group_collect :: "json \<Rightarrow> failure + grouped list" where
  "group_collect data =
     (case iterate data of Inl e \<Rightarrow> Inl e | Inr its \<Rightarrow> group_rows its)"

definition load_students_groups :: "string \<Rightarrow> failure + grouped list" where
  "load_students_groups raw =
     (case json_loads (tolerate_trailing_commas raw) of
        Inl e \<Rightarrow> Inl e
      | Inr data \<Rightarrow>
          (case group_collect data of
             Inl e \<Rightarrow> Inl e
           | Inr rows \<Rightarrow> if rows = [] then Inl (Exit 1) else Inr rows))"

text \<open>
  \<open>groups.setdefault(s["group"], []).append(s["username"])\<close>: the dict as its items in
  insertion order.
\<close>

fun setdefault_append :: "string \<Rightarrow> string \<Rightarrow> (string \<times> string list) list
    \<Rightarrow> (string \<times> string list) list" where
  "setdefault_append g u [] = [(g, [u])]"
| "setdefault_append g u ((k, ms) # rest) =
     (if k = g then (k, ms @ [u]) # rest else (k, ms) # setdefault_append g u rest)"

definition build_groups :: "grouped list \<Rightarrow> (string \<times> string list) list" where
  "build_groups students = foldl (\<lambda>groups s. setdefault_append (group s) (username s) groups) [] students"

text \<open>\<open>sorted(groups.items())\<close>: the keys are distinct, so the order is that of the group
  names, compared as Python compares strings (code point by code point).\<close>

definition sorted_items :: "(string \<times> string list) list \<Rightarrow> (string \<times> string list) list" where
  "sorted_items groups = sort_key fst groups"

text \<open>\<open>s.split(",")\<close>\<close>

fun split_on :: "char \<Rightarrow> string \<Rightarrow> string list" where
  "split_on d [] = [[]]"
| "split_on d (c # cs) =
     (if c = d then [] # split_on d cs
      else (case split_on d cs of [] \<Rightarrow> [[c]] | w # ws \<Rightarrow> (c # w) # ws))"

text \<open>\<open>[u.strip().lstrip("@") for u in args.instructors.split(",") if u.strip()]\<close>\<close>

definition parse_instructors :: "string \<Rightarrow> string list" where
  "parse_instructors s =
     map (\<lambda>u. lstrip_by is_at (strip u)) (filter (\<lambda>u. strip u \<noteq> []) (split_on CHR '','' s))"

section \<open>The remote organization\<close>

text \<open>
  Both programs reach the organization only through the \<open>gh\<close> command. What \<open>gh\<close> answers
  is not code of this repository, so it is a parameter: a client over a remote state
  \<open>'r\<close>. A query reads the state; \<open>invite\<close>, \<open>create_team\<close> and \<open>add_to_team\<close> return their
  answer and the next state. The fields carry the names of the wrapper functions of the
  source; \<open>gh_version\<close>, \<open>gh_auth_status\<close> and \<open>gh_org\<close> are the return codes of the three
  commands of the pre-checks. \<open>create_team\<close> answers the slug of the new team, or \<open>None\<close>
  when the command fails.
\<close>

datatype org_role = Direct_member | Admin

datatype privacy = Closed | Secret

datatype team_role = Member | Maintainer

record 'r client =
  gh_version :: "'r \<Rightarrow> int"
  gh_auth_status :: "'r \<Rightarrow> int"
  gh_org :: "'r \<Rightarrow> string \<Rightarrow> int"
  is_member :: "'r \<Rightarrow> string \<Rightarrow> string \<Rightarrow> bool"
  has_pending :: "'r \<Rightarrow> string \<Rightarrow> string \<Rightarrow> bool"
  resolve_uid :: "'r \<Rightarrow> string \<Rightarrow> int option"
  invite :: "'r \<Rightarrow> string \<Rightarrow> int \<Rightarrow> org_role \<Rightarrow> bool \<times> 'r"
  team_exists :: "'r \<Rightarrow> string \<Rightarrow> string \<Rightarrow> bool"
  create_team :: "'r \<Rightarrow> string \<Rightarrow> string \<Rightarrow> privacy \<Rightarrow> string option \<times> 'r"
  team_membership :: "'r \<Rightarrow> string \<Rightarrow> string \<Rightarrow> string \<Rightarrow> team_role option"
  add_to_team :: "'r \<Rightarrow> string \<Rightarrow> string \<Rightarrow> string \<Rightarrow> team_role \<Rightarrow> bool \<times> 'r"

text \<open>The commands a run issues, in order, and the three that change the organization.\<close>

datatype call =
    Gh_version
  | Gh_auth_status
  | Gh_org string
  | Query_member string string
  | Query_pending string string
  | Query_uid string
  | Create_invitation string int org_role
  | Query_team string string
  | Create_team string string privacy
  | Query_team_membership string string string
  | Set_team_membership string string string team_role

fun mutating :: "call \<Rightarrow> bool" where
  "mutating (Create_invitation org uid r) = True"
| "mutating (Create_team org nm p) = True"
| "mutating (Set_team_membership org slug u r) = True"
| "mutating c = False"

text \<open>What a run prints about each person, team and membership.\<close>

datatype line =
    Already_member string
  | Pending_invite string
  | Would_invite string
  | Cannot_resolve string
  | Invited string
  | Invite_failed string
  | Team_exists string
  | Would_create_team string
  | Created_team string string
  | Instructor_already string string
  | Would_promote string string
  | Promoted string string bool
  | Would_add_instructor string string
  | Added_instructor string string bool
  | Already_in_team string string team_role
  | Would_add_member string string
  | Added_member string string bool

record 'r world =
  remote :: 'r
  calls :: "call list"
  printed :: "line list"
  n_ok :: nat
  n_skip :: nat
  n_fail :: nat

definition start :: "'r \<Rightarrow> 'r world" where
  "start r = \<lparr>remote = r, calls = [], printed = [], n_ok = 0, n_skip = 0, n_fail = 0\<rparr>"

definition issue :: "call \<Rightarrow> 'r world \<Rightarrow> 'r world" where
  "issue c w = w\<lparr>calls := calls w @ [c]\<rparr>"

definition say :: "line \<Rightarrow> 'r world \<Rightarrow> 'r world" where
  "say l w = w\<lparr>printed := printed w @ [l]\<rparr>"

text \<open>The exit status of the process: 0 when \<open>main\<close> returns, the argument of
  \<open>sys.exit\<close>, 1 after an exception nobody catches.\<close>

fun exit_status :: "failure option \<Rightarrow> int option" where
  "exit_status None = Some 0"
| "exit_status (Some (Exit n)) = Some n"
| "exit_status (Some Unmodelled) = None"
| "exit_status (Some e) = Some 1"

record args =
  org :: string
  roster_file :: string
  dry_run :: bool

section \<open>invite\_to\_org.py: main\<close>

record invite_args = args +
  role :: org_role

text \<open>\<open>gh_prechecks\<close>: each command runs with \<open>check=True\<close>, so a non-zero return code
  ends the process with that code.\<close>

definition gh_prechecks :: "'r client \<Rightarrow> string \<Rightarrow> 'r world \<Rightarrow> failure option \<times> 'r world" where
  "gh_prechecks c o' w =
     (let w1 = issue Gh_version w in
      if gh_version c (remote w) \<noteq> 0 then (Some (Exit (gh_version c (remote w))), w1)
      else let w2 = issue Gh_auth_status w1 in
      if gh_auth_status c (remote w) \<noteq> 0 then (Some (Exit (gh_auth_status c (remote w))), w2)
      else let w3 = issue (Gh_org o') w2 in
      if gh_org c (remote w) o' \<noteq> 0 then (Some (Exit (gh_org c (remote w) o')), w3)
      else (None, w3))"

text \<open>The body of the loop of \<open>main\<close>, for one student.\<close>

definition process_student :: "'r client \<Rightarrow> invite_args \<Rightarrow> 'r world \<Rightarrow> student \<Rightarrow> 'r world" where
  "process_student c a w s =
     (let u = username s;
          r = remote w;
          w1 = (if CHR ''@'' \<notin> set u then issue (Query_member (org a) u) w else w)
      in
      if CHR ''@'' \<notin> set u \<and> is_member c r (org a) u
        then (say (Already_member u) w1)\<lparr>n_skip := n_skip w1 + 1\<rparr>
      else let w2 = issue (Query_pending (org a) u) w1 in
      if has_pending c r (org a) u
        then (say (Pending_invite u) w2)\<lparr>n_skip := n_skip w2 + 1\<rparr>
      else if dry_run a
        then (say (Would_invite u) w2)\<lparr>n_ok := n_ok w2 + 1\<rparr>
      else let w3 = issue (Query_uid u) w2 in
      case resolve_uid c r u of
        None \<Rightarrow> (say (Cannot_resolve u) w3)\<lparr>n_fail := n_fail w3 + 1\<rparr>
      | Some uid \<Rightarrow>
          (case invite c r (org a) uid (role a) of
             (done, r') \<Rightarrow>
               (let w4 = (issue (Create_invitation (org a) uid (role a)) w3)\<lparr>remote := r'\<rparr>
                in if done then (say (Invited u) w4)\<lparr>n_ok := n_ok w4 + 1\<rparr>
                   else (say (Invite_failed u) w4)\<lparr>n_fail := n_fail w4 + 1\<rparr>)))"

fun invite_loop :: "'r client \<Rightarrow> invite_args \<Rightarrow> 'r world \<Rightarrow> student list \<Rightarrow> 'r world" where
  "invite_loop c a w [] = w"
| "invite_loop c a w (s # ss) = invite_loop c a (process_student c a w s) ss"

definition main_invite :: "'r client \<Rightarrow> invite_args \<Rightarrow> 'r \<Rightarrow> failure option \<times> 'r world" where
  "main_invite c a r0 =
     (case gh_prechecks c (org a) (start r0) of
        (Some e, w) \<Rightarrow> (Some e, w)
      | (None, w) \<Rightarrow>
          (case load_students_invite (roster_file a) of
             Inl e \<Rightarrow> (Some e, w)
           | Inr students \<Rightarrow> (None, invite_loop c a w (dedupe {} students))))"

section \<open>manage\_groups.py: main\<close>

record group_args = args +
  instructors :: string
  team_privacy :: privacy

text \<open>\<open>gh_ok\<close>: either failure ends the process with status 1.\<close>

definition gh_ok :: "'r client \<Rightarrow> string \<Rightarrow> 'r world \<Rightarrow> failure option \<times> 'r world" where
  "gh_ok c o' w =
     (let w1 = issue Gh_auth_status w in
      if gh_auth_status c (remote w) \<noteq> 0 then (Some (Exit 1), w1)
      else let w2 = issue (Gh_org o') w1 in
      if gh_org c (remote w) o' \<noteq> 0 then (Some (Exit 1), w2)
      else (None, w2))"

text \<open>"Check/create team": \<open>create_team\<close> ends the process with status 1 when the command
  fails.\<close>

definition ensure_team :: "'r client \<Rightarrow> group_args \<Rightarrow> string \<Rightarrow> 'r world
    \<Rightarrow> failure option \<times> 'r world" where
  "ensure_team c a group_name w =
     (let team_slug = slugify group_name;
          w1 = issue (Query_team (org a) team_slug) w
      in
      if team_exists c (remote w) (org a) team_slug then (None, say (Team_exists team_slug) w1)
      else if dry_run a then (None, say (Would_create_team group_name) w1)
      else
        (case create_team c (remote w) (org a) group_name (team_privacy a) of
           (res, r') \<Rightarrow>
             (let w2 = (issue (Create_team (org a) group_name (team_privacy a)) w1)\<lparr>remote := r'\<rparr>
              in case res of
                   None \<Rightarrow> (Some (Exit 1), w2)
                 | Some created_slug \<Rightarrow> (None, say (Created_team group_name created_slug) w2))))"

text \<open>"Ensure instructors present as maintainers", for one instructor.\<close>

definition ensure_instructor :: "'r client \<Rightarrow> group_args \<Rightarrow> string \<Rightarrow> 'r world \<Rightarrow> string
    \<Rightarrow> 'r world" where
  "ensure_instructor c a team_slug w u =
     (let w1 = issue (Query_team_membership (org a) team_slug u) w in
      case team_membership c (remote w) (org a) team_slug u of
        Some Maintainer \<Rightarrow> say (Instructor_already team_slug u) w1
      | Some Member \<Rightarrow>
          if dry_run a then say (Would_promote team_slug u) w1
          else
            (case add_to_team c (remote w) (org a) team_slug u Maintainer of
               (done, r') \<Rightarrow>
                 say (Promoted team_slug u done)
                   ((issue (Set_team_membership (org a) team_slug u Maintainer) w1)\<lparr>remote := r'\<rparr>))
      | None \<Rightarrow>
          if dry_run a then say (Would_add_instructor team_slug u) w1
          else
            (case add_to_team c (remote w) (org a) team_slug u Maintainer of
               (done, r') \<Rightarrow>
                 say (Added_instructor team_slug u done)
                   ((issue (Set_team_membership (org a) team_slug u Maintainer) w1)\<lparr>remote := r'\<rparr>)))"

text \<open>"Ensure students present as members", for one member of the group.\<close>

definition ensure_member :: "'r client \<Rightarrow> group_args \<Rightarrow> string \<Rightarrow> 'r world \<Rightarrow> string
    \<Rightarrow> 'r world" where
  "ensure_member c a team_slug w u =
     (let w1 = issue (Query_team_membership (org a) team_slug u) w in
      case team_membership c (remote w) (org a) team_slug u of
        Some role_now \<Rightarrow> say (Already_in_team team_slug u role_now) w1
      | None \<Rightarrow>
          if dry_run a then say (Would_add_member team_slug u) w1
          else
            (case add_to_team c (remote w) (org a) team_slug u Member of
               (done, r') \<Rightarrow>
                 say (Added_member team_slug u done)
                   ((issue (Set_team_membership (org a) team_slug u Member) w1)\<lparr>remote := r'\<rparr>)))"

fun instructors_loop :: "'r client \<Rightarrow> group_args \<Rightarrow> string \<Rightarrow> 'r world \<Rightarrow> string list
    \<Rightarrow> 'r world" where
  "instructors_loop c a team_slug w [] = w"
| "instructors_loop c a team_slug w (u # us) =
     instructors_loop c a team_slug (ensure_instructor c a team_slug w u) us"

fun members_loop :: "'r client \<Rightarrow> group_args \<Rightarrow> string \<Rightarrow> 'r world \<Rightarrow> string list
    \<Rightarrow> 'r world" where
  "members_loop c a team_slug w [] = w"
| "members_loop c a team_slug w (u # us) =
     members_loop c a team_slug (ensure_member c a team_slug w u) us"

text \<open>The body of the loop over the groups, and the loop: it stops where the process
  ends.\<close>

definition process_group :: "'r client \<Rightarrow> group_args \<Rightarrow> string list \<Rightarrow> 'r world
    \<Rightarrow> string \<times> string list \<Rightarrow> failure option \<times> 'r world" where
  "process_group c a instr w item =
     (case ensure_team c a (fst item) w of
        (Some e, w1) \<Rightarrow> (Some e, w1)
      | (None, w1) \<Rightarrow>
          (None, members_loop c a (slugify (fst item))
                   (instructors_loop c a (slugify (fst item)) w1 instr) (snd item)))"

fun groups_loop :: "'r client \<Rightarrow> group_args \<Rightarrow> string list \<Rightarrow> 'r world
    \<Rightarrow> (string \<times> string list) list \<Rightarrow> failure option \<times> 'r world" where
  "groups_loop c a instr w [] = (None, w)"
| "groups_loop c a instr w (item # items) =
     (case process_group c a instr w item of
        (Some e, w1) \<Rightarrow> (Some e, w1)
      | (None, w1) \<Rightarrow> groups_loop c a instr w1 items)"

definition main_groups :: "'r client \<Rightarrow> group_args \<Rightarrow> 'r \<Rightarrow> failure option \<times> 'r world" where
  "main_groups c a r0 =
     (case gh_ok c (org a) (start r0) of
        (Some e, w) \<Rightarrow> (Some e, w)
      | (None, w) \<Rightarrow>
          (case load_students_groups (roster_file a) of
             Inl e \<Rightarrow> (Some e, w)
           | Inr students \<Rightarrow>
               groups_loop c a (parse_instructors (instructors a)) w
                 (sorted_items (build_groups students))))"

section \<open>The specification's wording, for comparison with the code\<close>

subsection \<open>Slugs\<close>

text \<open>
  The specification's slug: lowercase the trimmed input, collapse every run of characters
  other than a to z and 0 to 9 to a single separator (in one pass, from the right), trim
  the separators at both ends, and fall back to the literal \<open>team\<close>.
\<close>

fun collapse_runs :: "string \<Rightarrow> string" where
  "collapse_runs [] = []"
| "collapse_runs (c # cs) =
     (if az09 c then c # collapse_runs cs
      else (case collapse_runs cs of
              [] \<Rightarrow> ''-''
            | d # ds \<Rightarrow> if d = CHR ''-'' then d # ds else CHR ''-'' # d # ds))"

definition slugify_spec :: "string \<Rightarrow> string" where
  "slugify_spec x =
     (let s = strip_by is_sep (collapse_runs (lower (strip x)))
      in if s = [] then ''team'' else s)"

text \<open>
  The runs of an input: its maximal runs of the characters a to z and 0 to 9, in order.
  Two inputs differ only by case or by their separators when their lowercased forms have
  the same runs: the letters may change case, and the punctuation and white space between
  two runs, before the first and after the last may be added, removed, repeated or
  replaced. Punctuation put inside a run splits it, and is not such a difference.
\<close>

function alnum_runs :: "string \<Rightarrow> string list" where
  "alnum_runs [] = []"
| "alnum_runs (c # cs) =
     (if az09 c then (c # takeWhile az09 cs) # alnum_runs (dropWhile az09 cs)
      else alnum_runs cs)"
  by pat_completeness auto
termination
  by (relation "measure length") (auto simp: le_imp_less_Suc length_dropWhile_le)

fun join_runs :: "string list \<Rightarrow> string" where
  "join_runs [] = []"
| "join_runs [w] = w"
| "join_runs (w # v # ws) = w @ CHR ''-'' # join_runs (v # ws)"

definition same_runs_up_to_case :: "string \<Rightarrow> string \<Rightarrow> bool" where
  "same_runs_up_to_case x y = (alnum_runs (lower x) = alnum_runs (lower y))"

text \<open>The commands of the team workflow that carry a team slug in their path.\<close>

fun call_slug_wf :: "call \<Rightarrow> bool" where
  "call_slug_wf (Query_team og slug) = slug_wf slug"
| "call_slug_wf (Query_team_membership og slug u) = slug_wf slug"
| "call_slug_wf (Set_team_membership og slug u r) = slug_wf slug"
| "call_slug_wf c = True"

subsection \<open>The decision for one person of the invitation workflow\<close>

datatype outcome = Skipped | Would_invite_counted_ok | Invited_ok | Failed

text \<open>
  The five steps of the specification, in their order, for the person \<open>u\<close> at the remote
  state \<open>r\<close>: the outcome, the mutating commands issued, and the next remote state.
\<close>

definition spec_person :: "'r client \<Rightarrow> invite_args \<Rightarrow> 'r \<Rightarrow> string
    \<Rightarrow> outcome \<times> call list \<times> 'r" where
  "spec_person c a r u =
     (if CHR ''@'' \<notin> set u \<and> is_member c r (org a) u then (Skipped, [], r)
      else if has_pending c r (org a) u then (Skipped, [], r)
      else if dry_run a then (Would_invite_counted_ok, [], r)
      else case resolve_uid c r u of
             None \<Rightarrow> (Failed, [], r)
           | Some uid \<Rightarrow>
               (if fst (invite c r (org a) uid (role a)) then Invited_ok else Failed,
                [Create_invitation (org a) uid (role a)],
                snd (invite c r (org a) uid (role a))))"

fun spec_people :: "'r client \<Rightarrow> invite_args \<Rightarrow> 'r \<Rightarrow> string list
    \<Rightarrow> (string \<times> outcome) list \<times> call list \<times> 'r" where
  "spec_people c a r [] = ([], [], r)"
| "spec_people c a r (u # us) =
     (case spec_person c a r u of
        (out, ms, r1) \<Rightarrow>
          (case spec_people c a r1 us of
             (outs, ms', r2) \<Rightarrow> ((u, out) # outs, ms @ ms', r2)))"

text \<open>The person and the outcome a printed line of the invitation workflow stands for.\<close>

fun classify :: "line \<Rightarrow> (string \<times> outcome) option" where
  "classify (Already_member u) = Some (u, Skipped)"
| "classify (Pending_invite u) = Some (u, Skipped)"
| "classify (Would_invite u) = Some (u, Would_invite_counted_ok)"
| "classify (Cannot_resolve u) = Some (u, Failed)"
| "classify (Invited u) = Some (u, Invited_ok)"
| "classify (Invite_failed u) = Some (u, Failed)"
| "classify l = None"

definition count_outcomes :: "outcome list \<Rightarrow> (string \<times> outcome) list \<Rightarrow> nat" where
  "count_outcomes os xs = length (filter (\<lambda>x. snd x \<in> set os) xs)"

subsection \<open>Skips, failures and the commands of the pre-checks\<close>


fun reports_failure :: "line \<Rightarrow> bool" where
  "reports_failure (Cannot_resolve u) = True"
| "reports_failure (Invite_failed u) = True"
| "reports_failure (Promoted t u done) = (\<not> done)"
| "reports_failure (Added_instructor t u done) = (\<not> done)"
| "reports_failure (Added_member t u done) = (\<not> done)"
| "reports_failure l = False"

fun is_precheck :: "call \<Rightarrow> bool" where
  "is_precheck Gh_version = True"
| "is_precheck Gh_auth_status = True"
| "is_precheck (Gh_org og) = True"
| "is_precheck c = False"

fun writes_membership :: "string \<Rightarrow> string \<Rightarrow> string \<Rightarrow> call \<Rightarrow> bool" where
  "writes_membership og slug u (Set_team_membership og' slug' u' r) =
     (og' = og \<and> slug' = slug \<and> u' = u)"
| "writes_membership og slug u c = False"

subsection \<open>What is assumed of the remote organization\<close>

text \<open>
  The remote reflects a successful invitation: the person whose id was invited then has a
  pending invitation, and nobody stops being a member or loses a pending invitation.
\<close>

definition invitations_stick :: "'r client \<Rightarrow> bool" where
  "invitations_stick c =
     (\<forall>r og uid rl r'. invite c r og uid rl = (True, r') \<longrightarrow>
        (\<forall>u. resolve_uid c r u = Some uid \<longrightarrow> has_pending c r' og u) \<and>
        (\<forall>v. is_member c r og v \<longrightarrow> is_member c r' og v) \<and>
        (\<forall>v. has_pending c r og v \<longrightarrow> has_pending c r' og v))"

text \<open>
  The remote reflects a successful team creation and a successful membership write: the
  team then exists under the slug the program computes, the written role reads back, and
  no existing team or other role is lost.
\<close>

definition team_writes_stick :: "'r client \<Rightarrow> bool" where
  "team_writes_stick c =
     ((\<forall>r og nm p s r'. create_team c r og nm p = (Some s, r') \<longrightarrow>
         team_exists c r' og (slugify nm) \<and>
         (\<forall>t. team_exists c r og t \<longrightarrow> team_exists c r' og t) \<and>
         (\<forall>t u x. team_membership c r og t u = Some x \<longrightarrow> team_membership c r' og t u = Some x)) \<and>
      (\<forall>r og t u rl r'. add_to_team c r og t u rl = (True, r') \<longrightarrow>
         team_membership c r' og t u = Some rl \<and>
         (\<forall>t'. team_exists c r og t' \<longrightarrow> team_exists c r' og t') \<and>
         (\<forall>t' u' x. (t', u') \<noteq> (t, u) \<longrightarrow> team_membership c r og t' u' = Some x
            \<longrightarrow> team_membership c r' og t' u' = Some x)))"

text \<open>The remote changes a maintainer's role only when a command writes that very
  membership.\<close>

definition keeps_maintainers :: "'r client \<Rightarrow> bool" where
  "keeps_maintainers c =
     ((\<forall>r og nm p t u. team_membership c r og t u = Some Maintainer \<longrightarrow>
         team_membership c (snd (create_team c r og nm p)) og t u = Some Maintainer) \<and>
      (\<forall>r og t' u' rl t u. (t', u') \<noteq> (t, u) \<longrightarrow> team_membership c r og t u = Some Maintainer \<longrightarrow>
         team_membership c (snd (add_to_team c r og t' u' rl)) og t u = Some Maintainer))"

text \<open>The targets of the two workflows, read at a remote state.\<close>

definition invited_or_member :: "'r client \<Rightarrow> string \<Rightarrow> 'r \<Rightarrow> string \<Rightarrow> bool" where
  "invited_or_member c og r u =
     ((CHR ''@'' \<notin> set u \<and> is_member c r og u) \<or> has_pending c r og u)"

datatype target = Team_there string | Maintains string string | Belongs string string

fun met :: "'r client \<Rightarrow> string \<Rightarrow> 'r \<Rightarrow> target \<Rightarrow> bool" where
  "met c og r (Team_there t) = team_exists c r og t"
| "met c og r (Maintains t u) = (team_membership c r og t u = Some Maintainer)"
| "met c og r (Belongs t u) = (team_membership c r og t u \<noteq> None)"

definition group_targets :: "string list \<Rightarrow> string \<times> string list \<Rightarrow> target list" where
  "group_targets instr item =
     Team_there (slugify (fst item)) # map (Maintains (slugify (fst item))) instr
       @ map (Belongs (slugify (fst item))) (snd item)"

section \<open>An organization in memory\<close>

text \<open>
  A concrete remote, for running the programs on examples: the members, the pending
  invitations, the ids of the users, the teams by slug and the team roles. While
  \<open>writable\<close> is false every mutating command is refused and changes nothing.
\<close>

record organization =
  members :: "string list"
  pending :: "string list"
  uids :: "(string \<times> int) list"
  teams :: "string list"
  roles :: "((string \<times> string) \<times> team_role) list"
  writable :: bool

definition in_memory :: "organization client" where
  "in_memory =
     \<lparr>gh_version = (\<lambda>r. 0),
      gh_auth_status = (\<lambda>r. 0),
      gh_org = (\<lambda>r og. 0),
      is_member = (\<lambda>r og u. u \<in> set (members r)),
      has_pending = (\<lambda>r og u. u \<in> set (pending r)),
      resolve_uid = (\<lambda>r u. map_of (uids r) u),
      invite = (\<lambda>r og uid rl.
        if writable r
        then (True, r\<lparr>pending := pending r @ map fst (filter (\<lambda>x. snd x = uid) (uids r))\<rparr>)
        else (False, r)),
      team_exists = (\<lambda>r og t. t \<in> set (teams r)),
      create_team = (\<lambda>r og nm p.
        if writable r then (Some (slugify nm), r\<lparr>teams := teams r @ [slugify nm]\<rparr>)
        else (None, r)),
      team_membership = (\<lambda>r og t u. map_of (roles r) (t, u)),
      add_to_team = (\<lambda>r og t u rl.
        if writable r then (True, r\<lparr>roles := ((t, u), rl) # roles r\<rparr>) else (False, r))\<rparr>"

definition empty_org :: organization where
  "empty_org = \<lparr>members = [], pending = [], uids = [], teams = [], roles = [], writable = True\<rparr>"


section \<open>Example inputs\<close>

text \<open>The roster of the specification's scenario, with its trailing comma.\<close>

definition scenario_roster :: string where
  "scenario_roster =
     ''[{\"username\":\"alice\",\"group\":\"A\"},{\"username\":\"bob\",\"group\":\"A\"},{\"username\":\"alice\",\"group\":\"A\"},]''"

text \<open>A roster of four people, the first of them twice, and an organization where alice
  is a member, bob has a pending invitation, carol has a user id and dave has none.\<close>

definition four_people :: string where
  "four_people =
     ''[{\"username\":\"alice\"},{\"username\":\"bob\"},{\"username\":\"carol\"},{\"username\":\"dave\"},{\"username\":\"alice\"}]''"

definition small_org :: organization where
  "small_org = \<lparr>members = [''alice''], pending = [''bob''], uids = [(''carol'', 7)],
     teams = [], roles = [], writable = True\<rparr>"

definition invite_run :: "string \<Rightarrow> bool \<Rightarrow> invite_args" where
  "invite_run text dry = \<lparr>org = ''o'', roster_file = text, dry_run = dry, role = Direct_member\<rparr>"

definition groups_run :: "string \<Rightarrow> string \<Rightarrow> bool \<Rightarrow> group_args" where
  "groups_run text instr dry =
     \<lparr>org = ''o'', roster_file = text, dry_run = dry, instructors = instr, team_privacy = Closed\<rparr>"

text \<open>A roster whose two usernames are empty once trimmed and stripped of the sigil, for
  each of the two programs.\<close>

definition blank_usernames :: string where
  "blank_usernames = ''[{\"username\":\" \"},{\"username\":\"@\"}]''"

definition blank_usernames_grouped :: string where
  "blank_usernames_grouped = ''[{\"username\":\" \",\"group\":\"A\"},{\"username\":\"@\",\"group\":\"A\"}]''"

text \<open>A roster with a comma, a space and a closing bracket inside a quoted name, and one
  with a doubled sigil.\<close>

definition comma_in_name :: string where
  "comma_in_name = ''[{\"username\":\"bob\",\"name\":\"Bob, ]\",\"group\":\"G\"}]''"



text \<open>What the loop of each loader collects from the file parsed as it stands, without
  the trailing-comma pass.\<close>

definition strict_invite :: "string \<Rightarrow> failure + student list" where
  "strict_invite raw = (case json_loads raw of Inl e \<Rightarrow> Inl e | Inr data \<Rightarrow> invite_collect data)"

definition strict_groups :: "string \<Rightarrow> failure + grouped list" where
  "strict_groups raw = (case json_loads raw of Inl e \<Rightarrow> Inl e | Inr data \<Rightarrow> group_collect data)"

text \<open>The rows the two loaders return for the scenario roster.\<close>

definition scenario_students :: "student list" where
  "scenario_students =
     [\<lparr>name = [], username = ''alice''\<rparr>, \<lparr>name = [], username = ''bob''\<rparr>,
      \<lparr>name = [], username = ''alice''\<rparr>]"

definition scenario_grouped :: "grouped list" where
  "scenario_grouped =
     [\<lparr>name = [], username = ''alice'', group = ''A''\<rparr>,
      \<lparr>name = [], username = ''bob'', group = ''A''\<rparr>,
      \<lparr>name = [], username = ''alice'', group = ''A''\<rparr>]"

text \<open>An organization where team "a" exists and the instructor ta is its maintainer.\<close>

definition staffed_org :: organization where
  "staffed_org = \<lparr>members = [], pending = [], uids = [], teams = [''a''],
     roles = [((''a'', ''ta''), Maintainer)], writable = True\<rparr>"

section \<open>Properties of slugify\<close>

lemma sep_not_az09 [simp]: "\<not> az09 CHR ''-''"
  by (simp add: az09_def codepoint_def)

lemma dropWhile_head: "dropWhile p cs = [] \<or> \<not> p (hd (dropWhile p cs))"
  by (metis hd_dropWhile)

lemma collapse_chars: "list_all (\<lambda>c. az09 c \<or> c = CHR ''-'') (re_sub_runs non_az09 ''-'' s)"
  by (induction "non_az09" "''-''" s rule: re_sub_runs.induct) auto

lemma collapse_head:
  "s = [] \<or> az09 (hd s) \<Longrightarrow>
   re_sub_runs non_az09 ''-'' s = [] \<or> az09 (hd (re_sub_runs non_az09 ''-'' s))"
  by (cases s) auto

lemma no_adjacent_sep_Cons:
  "no_adjacent_sep (a # s) = ((a = CHR ''-'' \<longrightarrow> s = [] \<or> hd s \<noteq> CHR ''-'') \<and> no_adjacent_sep s)"
  by (cases s) auto

lemma collapse_no_adjacent: "no_adjacent_sep (re_sub_runs non_az09 ''-'' s)"
proof (induction "non_az09" "''-''" s rule: re_sub_runs.induct)
  case 1
  show ?case by simp
next
  case (2 c cs)
  show ?case
  proof (cases "az09 c")
    case True
    with 2 show ?thesis by (auto simp: no_adjacent_sep_Cons)
  next
    case False
    have "dropWhile non_az09 cs = [] \<or> az09 (hd (dropWhile non_az09 cs))"
      using dropWhile_head [of non_az09 cs] by simp
    from collapse_head [OF this] 2 False show ?thesis
      by (auto simp: no_adjacent_sep_Cons)
  qed
qed

lemma sub_sep_id: "no_adjacent_sep s \<Longrightarrow> re_sub_runs is_sep ''-'' s = s"
proof (induction "is_sep" "''-''" s rule: re_sub_runs.induct)
  case 1
  show ?case by simp
next
  case (2 c cs)
  then show ?case
    by (cases cs) (auto simp: no_adjacent_sep_Cons)
qed

lemma no_adjacent_sep_dropWhile: "no_adjacent_sep s \<Longrightarrow> no_adjacent_sep (dropWhile p s)"
  by (induction s) (auto simp: no_adjacent_sep_Cons)

lemma no_adjacent_sep_append:
  "no_adjacent_sep (s @ t) \<Longrightarrow> no_adjacent_sep s"
  by (induction s) (auto simp: no_adjacent_sep_Cons hd_append split: if_splits)

lemma rstrip_prefix: "t = rstrip_by p t @ rev (takeWhile p (rev t))"
  unfolding rstrip_by_def by (metis rev_append rev_rev_ident takeWhile_dropWhile_id)

lemma strip_by_no_adjacent: "no_adjacent_sep s \<Longrightarrow> no_adjacent_sep (strip_by p s)"
  unfolding strip_by_def lstrip_by_def
  using no_adjacent_sep_append [of "rstrip_by p (dropWhile p s)" "rev (takeWhile p (rev (dropWhile p s)))"]
    rstrip_prefix [of "dropWhile p s" p] no_adjacent_sep_dropWhile [of s p]
  by simp

lemma strip_by_all: "list_all q s \<Longrightarrow> list_all q (strip_by p s)"
  unfolding strip_by_def rstrip_by_def lstrip_by_def list_all_iff
  by (auto dest!: set_dropWhileD)

lemma strip_by_hd: "strip_by p s \<noteq> [] \<Longrightarrow> \<not> p (hd (strip_by p s))"
proof -
  assume ne: "strip_by p s \<noteq> []"
  let ?d = "dropWhile p s"
  have d: "?d \<noteq> []"
  proof
    assume e: "?d = []"
    have "strip_by p s = []" unfolding strip_by_def rstrip_by_def lstrip_by_def e by simp
    with ne show False by simp
  qed
  then have h: "\<not> p (hd ?d)" by (metis hd_dropWhile)
  have "?d = strip_by p s @ rev (takeWhile p (rev ?d))"
    unfolding strip_by_def lstrip_by_def by (rule rstrip_prefix)
  then have "hd ?d = hd (strip_by p s)" using ne by (metis hd_append2)
  with h show ?thesis by simp
qed

lemma strip_by_last: "strip_by p s \<noteq> [] \<Longrightarrow> \<not> p (last (strip_by p s))"
proof -
  assume ne: "strip_by p s \<noteq> []"
  let ?r = "dropWhile p (rev (dropWhile p s))"
  have r: "?r \<noteq> []" using ne unfolding strip_by_def rstrip_by_def lstrip_by_def by simp
  then have "\<not> p (hd ?r)" by (metis hd_dropWhile)
  moreover have "last (strip_by p s) = hd ?r"
    unfolding strip_by_def rstrip_by_def lstrip_by_def using r by (simp add: last_rev)
  ultimately show ?thesis by simp
qed

lemma strip_by_id: "s = [] \<or> (\<not> p (hd s) \<and> \<not> p (last s)) \<Longrightarrow> strip_by p s = s"
  by (cases s) (auto simp: strip_by_def rstrip_by_def lstrip_by_def dropWhile_eq_self_iff hd_rev split: if_splits)

lemma slugify_wf: "slug_wf (slugify x)"
proof -
  define s where "s = strip_by is_sep (re_sub_runs is_sep ''-'' (re_sub_runs non_az09 ''-'' (lower (strip x))))"
  have s: "s = strip_by is_sep (re_sub_runs non_az09 ''-'' (lower (strip x)))"
    unfolding s_def by (simp add: sub_sep_id collapse_no_adjacent)
  have team: "slug_wf ''team''"
    by (simp add: slug_wf_def az09_def codepoint_def)
  have "s \<noteq> [] \<Longrightarrow> slug_wf s"
    unfolding slug_wf_def
    using strip_by_hd [of is_sep] strip_by_last [of is_sep]
    by (simp add: s strip_by_no_adjacent collapse_no_adjacent strip_by_all collapse_chars)
  with team show ?thesis
    by (simp add: slugify_def s_def Let_def)
qed

lemma slug_char_plain: "az09 c \<or> c = CHR ''-'' \<Longrightarrow> \<not> isspace c \<and> \<not> is_upper c"
  by (auto simp: az09_def isspace_def is_upper_def codepoint_def Let_def)

lemma lower_id: "list_all (\<lambda>c. az09 c \<or> c = CHR ''-'') s \<Longrightarrow> lower s = s"
  by (induction s) (auto simp: lower_def lower_char_def slug_char_plain)

lemma collapse_id:
  "list_all (\<lambda>c. az09 c \<or> c = CHR ''-'') s \<Longrightarrow> no_adjacent_sep s \<Longrightarrow>
   re_sub_runs non_az09 ''-'' s = s"
proof (induction s)
  case Nil
  show ?case by simp
next
  case (Cons c cs)
  then have ih: "re_sub_runs non_az09 ''-'' cs = cs"
    by (simp add: no_adjacent_sep_Cons)
  show ?case
  proof (cases "az09 c")
    case True
    with ih show ?thesis by simp
  next
    case False
    with Cons.prems have c: "c = CHR ''-''" by simp
    with Cons.prems have "cs = [] \<or> az09 (hd cs)"
      by (cases cs) (auto simp: no_adjacent_sep_Cons)
    then have "dropWhile non_az09 cs = cs" by (cases cs) auto
    with False ih c show ?thesis by simp
  qed
qed

lemma slugify_fixed: "slug_wf s \<Longrightarrow> slugify s = s"
proof -
  assume wf: "slug_wf s"
  then have ne: "s \<noteq> []" and chars: "list_all (\<lambda>c. az09 c \<or> c = CHR ''-'') s"
    and h: "hd s \<noteq> CHR ''-''" and l: "last s \<noteq> CHR ''-''" and adj: "no_adjacent_sep s"
    by (simp_all add: slug_wf_def)
  have "az09 (hd s) \<or> hd s = CHR ''-''" "az09 (last s) \<or> last s = CHR ''-''"
    using ne chars by (auto simp: list_all_iff)
  then have "\<not> isspace (hd s)" "\<not> isspace (last s)"
    using slug_char_plain by blast+
  then have 1: "strip s = s" unfolding strip_def by (simp add: strip_by_id)
  have 2: "strip_by is_sep s = s" using h l by (simp add: strip_by_id)
  show ?thesis
    by (simp add: slugify_def 1 lower_id chars collapse_id adj sub_sep_id 2 ne)
qed

lemma collapse_runs_sep:
  "non_az09 c \<Longrightarrow> collapse_runs (c # cs) = CHR ''-'' # collapse_runs (dropWhile non_az09 cs)"
proof (induction cs arbitrary: c)
  case Nil
  then show ?case by simp
next
  case (Cons d ds)
  show ?case
  proof (cases "az09 d")
    case True
    with Cons.prems show ?thesis by auto
  next
    case False
    from Cons.IH [OF False] Cons.prems False show ?thesis by simp
  qed
qed

lemma collapse_runs_eq: "collapse_runs s = re_sub_runs non_az09 ''-'' s"
proof (induction "non_az09" "''-''" s rule: re_sub_runs.induct)
  case 1
  show ?case by simp
next
  case (2 c cs)
  show ?case
  proof (cases "az09 c")
    case True
    with 2 show ?thesis by simp
  next
    case False
    with 2 show ?thesis by (simp add: collapse_runs_sep del: collapse_runs.simps)
  qed
qed

lemma slugify_core:
  "slugify x = (let s = strip_by is_sep (re_sub_runs non_az09 ''-'' (lower (strip x)))
                in if s = [] then ''team'' else s)"
  by (simp add: slugify_def sub_sep_id collapse_no_adjacent)

lemma slugify_refines_spec: "slugify x = slugify_spec x"
  by (simp add: slugify_core slugify_spec_def collapse_runs_eq)

lemma rstrip_by_Cons:
  "rstrip_by q (c # cs) = (if rstrip_by q cs = [] \<and> q c then [] else c # rstrip_by q cs)"
proof (cases "\<forall>x\<in>set cs. q x")
  case True
  then have a: "dropWhile q (rev cs) = []" by simp
  from True have b: "dropWhile q (rev cs @ [c]) = dropWhile q [c]"
    by (intro dropWhile_append2) simp
  show ?thesis by (simp add: rstrip_by_def a b)
next
  case False
  then have ne: "dropWhile q (rev cs) \<noteq> []" by simp
  from False have b: "dropWhile q (rev cs @ [c]) = dropWhile q (rev cs) @ [c]"
    by (auto simp: dropWhile_append1)
  from ne show ?thesis by (simp add: rstrip_by_def b)
qed

lemma rstrip_by_Nil [simp]: "rstrip_by q [] = []"
  by (simp add: rstrip_by_def)

lemma lstrip_rstrip_commute: "lstrip_by p (rstrip_by q s) = rstrip_by q (lstrip_by p s)"
  by (induction s) (auto simp: rstrip_by_Cons lstrip_by_def)

lemma lstrip_absorb:
  "(\<And>c. p c \<Longrightarrow> q c) \<Longrightarrow> lstrip_by q (lstrip_by p s) = lstrip_by q s"
  by (induction s) (auto simp: lstrip_by_def)

lemma rstrip_absorb:
  "(\<And>c. p c \<Longrightarrow> q c) \<Longrightarrow> rstrip_by q (rstrip_by p s) = rstrip_by q s"
  using lstrip_absorb [of p q "rev s"] by (simp add: rstrip_by_def lstrip_by_def)

lemma strip_absorb:
  assumes "\<And>c. p c \<Longrightarrow> q c"
  shows "strip_by q (strip_by p s) = strip_by q s"
proof -
  have "strip_by q (strip_by p s) = rstrip_by q (lstrip_by q (rstrip_by p (lstrip_by p s)))"
    by (simp add: strip_by_def)
  also have "\<dots> = rstrip_by q (rstrip_by p (lstrip_by q (lstrip_by p s)))"
    by (simp add: lstrip_rstrip_commute)
  also have "\<dots> = rstrip_by q (lstrip_by q s)"
    using assms by (simp add: rstrip_absorb lstrip_absorb)
  finally show ?thesis by (simp add: strip_by_def)
qed

lemma collapse_az09_head:
  "s = [] \<or> az09 (hd s) \<Longrightarrow> lstrip_by is_sep (re_sub_runs non_az09 ''-'' s) = re_sub_runs non_az09 ''-'' s"
  by (cases s) (auto simp: lstrip_by_def)

lemma collapse_lstrip:
  "lstrip_by is_sep (re_sub_runs non_az09 ''-'' s) = re_sub_runs non_az09 ''-'' (lstrip_by non_az09 s)"
proof (cases s)
  case Nil
  then show ?thesis by (simp add: lstrip_by_def)
next
  case (Cons c cs)
  show ?thesis
  proof (cases "az09 c")
    case True
    with Cons show ?thesis by (auto simp: lstrip_by_def)
  next
    case False
    have "dropWhile non_az09 cs = [] \<or> az09 (hd (dropWhile non_az09 cs))"
      using dropWhile_head [of non_az09 cs] by simp
    from collapse_az09_head [OF this] False Cons show ?thesis
      by (simp add: lstrip_by_def)
  qed
qed

lemma collapse_snoc:
  "re_sub_runs non_az09 ''-'' (s @ [c]) =
     (if az09 c then re_sub_runs non_az09 ''-'' s @ [c]
      else if s \<noteq> [] \<and> non_az09 (last s) then re_sub_runs non_az09 ''-'' s
      else re_sub_runs non_az09 ''-'' s @ ''-'')"
proof (induction "non_az09" "''-''" s rule: re_sub_runs.induct)
  case 1
  show ?case by simp
next
  case (2 d ds)
  show ?case
  proof (cases "az09 d")
    case True
    with 2 show ?thesis by simp
  next
    case False
    note d = this
    show ?thesis
    proof (cases "\<forall>x\<in>set ds. non_az09 x")
      case True
      then have a: "dropWhile non_az09 ds = []" by simp
      from True have b: "dropWhile non_az09 (ds @ [c]) = dropWhile non_az09 [c]"
        by (intro dropWhile_append2) simp
      from True have "ds \<noteq> [] \<Longrightarrow> non_az09 (last ds)" by simp
      with d show ?thesis by (simp add: a b)
    next
      case False
      then have ne: "dropWhile non_az09 ds \<noteq> []" by simp
      from False have b: "dropWhile non_az09 (ds @ [c]) = dropWhile non_az09 ds @ [c]"
        by (auto simp: dropWhile_append1)
      from ne have l: "last (dropWhile non_az09 ds) = last ds"
        by (metis last_appendR takeWhile_dropWhile_id)
      from ne have "ds \<noteq> []" by auto
      with 2(1) [OF d] d ne l show ?thesis by (simp add: b)
    qed
  qed
qed

lemma collapse_rev:
  "re_sub_runs non_az09 ''-'' (rev s) = rev (re_sub_runs non_az09 ''-'' s)"
proof (induction s)
  case Nil
  show ?case by simp
next
  case (Cons c cs)
  note snoc = collapse_snoc [of "rev cs" c]
  show ?case
  proof (cases "az09 c")
    case True
    with Cons snoc show ?thesis by simp
  next
    case False
    note c = this
    show ?thesis
    proof (cases "cs = [] \<or> az09 (hd cs)")
      case True
      then have "dropWhile non_az09 cs = cs" by (cases cs) auto
      moreover from True have "\<not> (rev cs \<noteq> [] \<and> non_az09 (last (rev cs)))"
        by (auto simp: last_rev)
      ultimately show ?thesis using c snoc Cons.IH by simp
    next
      case False
      then obtain d ds where cs: "cs = d # ds" and d: "non_az09 d"
        by (cases cs) auto
      then have "rev cs \<noteq> [] \<and> non_az09 (last (rev cs))" by simp
      with c snoc have "re_sub_runs non_az09 ''-'' (rev (c # cs)) = re_sub_runs non_az09 ''-'' (rev cs)"
        by simp
      also have "\<dots> = rev (re_sub_runs non_az09 ''-'' cs)" by (rule Cons.IH)
      also have "\<dots> = rev (re_sub_runs non_az09 ''-'' (c # cs))"
        using c d cs by simp
      finally show ?thesis .
    qed
  qed
qed

lemma collapse_rstrip:
  "rstrip_by is_sep (re_sub_runs non_az09 ''-'' s) = re_sub_runs non_az09 ''-'' (rstrip_by non_az09 s)"
  using collapse_lstrip [of "rev s"]
  by (simp add: rstrip_by_def lstrip_by_def collapse_rev [symmetric])

lemma collapse_strip:
  "strip_by is_sep (re_sub_runs non_az09 ''-'' s) = re_sub_runs non_az09 ''-'' (strip_by non_az09 s)"
  by (simp add: strip_by_def collapse_lstrip collapse_rstrip)

lemma isspace_non_az09: "isspace c \<Longrightarrow> non_az09 c"
  by (auto simp: az09_def isspace_def codepoint_def Let_def)

lemma slugify_core2:
  "slugify x = (let s = re_sub_runs non_az09 ''-'' (strip_by non_az09 (lower (strip x)))
                in if s = [] then ''team'' else s)"
  by (simp add: slugify_core collapse_strip)

lemma isspace_lower_char: "isspace (lower_char c) = isspace c"
proof (cases "is_upper c")
  case False
  then show ?thesis by (simp add: lower_char_def)
next
  case True
  then have b: "codepoint c + 32 < 256"
    by (auto simp: is_upper_def Let_def)
  then have "codepoint (char_of (codepoint c + 32)) = codepoint c + 32"
    by (simp add: codepoint_def)
  with True show ?thesis
    by (auto simp: lower_char_def isspace_def is_upper_def Let_def)
qed

lemma lower_lstrip: "lower (lstrip_by isspace s) = lstrip_by isspace (lower s)"
  by (induction s) (auto simp: lower_def lstrip_by_def isspace_lower_char)

lemma lower_rev: "lower (rev s) = rev (lower s)"
  by (simp add: lower_def rev_map)

lemma lower_rstrip: "lower (rstrip_by isspace s) = rstrip_by isspace (lower s)"
  using lower_lstrip [of "rev s"]
  by (simp add: rstrip_by_def lstrip_by_def lower_rev)

lemma lower_strip: "lower (strip s) = strip (lower s)"
  by (simp add: strip_def strip_by_def lower_rstrip lower_lstrip)

lemma slugify_core3:
  "slugify x = (let s = re_sub_runs non_az09 ''-'' (strip_by non_az09 (lower x))
                in if s = [] then ''team'' else s)"
proof -
  have "strip_by non_az09 (strip_by isspace (lower x)) = strip_by non_az09 (lower x)"
    by (rule strip_absorb) (rule isspace_non_az09)
  moreover have "lower (strip x) = strip_by isspace (lower x)"
    using lower_strip [of x] by (simp add: strip_def)
  ultimately show ?thesis by (simp add: slugify_core2)
qed

lemma slugify_core4:
  "slugify x = (let s = strip_by is_sep (re_sub_runs non_az09 ''-'' (lower x))
                in if s = [] then ''team'' else s)"
  by (simp add: slugify_core3 collapse_strip)

lemma rstrip_by_append:
  "rstrip_by p (a @ b) = (if rstrip_by p b = [] then rstrip_by p a else a @ rstrip_by p b)"
  by (induction a) (auto simp: rstrip_by_Cons)

lemma rstrip_by_id: "s = [] \<or> \<not> p (last s) \<Longrightarrow> rstrip_by p s = s"
  by (induction s) (auto simp: rstrip_by_Cons split: if_splits)

lemma collapse_az09_prefix:
  "list_all az09 a \<Longrightarrow> re_sub_runs non_az09 ''-'' (a @ b) = a @ re_sub_runs non_az09 ''-'' b"
  by (induction a) auto

lemma last_run_az09: "az09 c \<Longrightarrow> az09 (last (c # takeWhile az09 cs))"
  by (induction cs arbitrary: c) auto

lemma alnum_runs_nonempty: "list_all (\<lambda>w. w \<noteq> []) (alnum_runs s)"
  by (induction s rule: alnum_runs.induct) auto

lemma join_runs_Nil_iff: "list_all (\<lambda>w. w \<noteq> []) ws \<Longrightarrow> join_runs ws = [] \<longleftrightarrow> ws = []"
  by (induction ws rule: join_runs.induct) auto

lemma join_runs_Cons:
  "join_runs (w # ws) = (if ws = [] then w else w @ CHR ''-'' # join_runs ws)"
  by (cases ws) auto

lemma alnum_runs_lstrip: "alnum_runs (dropWhile non_az09 s) = alnum_runs s"
  by (induction s) auto

text \<open>The trimmed, collapsed string is the runs joined by single separators.\<close>

lemma strip_collapse_runs:
  "strip_by is_sep (re_sub_runs non_az09 ''-'' s) = join_runs (alnum_runs s)"
proof (induction s rule: alnum_runs.induct)
  case 1
  show ?case by (simp add: strip_by_def lstrip_by_def)
next
  case (2 c cs)
  show ?case
  proof (cases "az09 c")
    case False
    have "strip_by is_sep (re_sub_runs non_az09 ''-'' (c # cs))
        = re_sub_runs non_az09 ''-'' (strip_by non_az09 (c # cs))"
      by (rule collapse_strip)
    also have "strip_by non_az09 (c # cs) = strip_by non_az09 cs"
      using False by (simp add: strip_by_def lstrip_by_def)
    also have "re_sub_runs non_az09 ''-'' (strip_by non_az09 cs)
        = strip_by is_sep (re_sub_runs non_az09 ''-'' cs)"
      by (rule collapse_strip [symmetric])
    finally show ?thesis using False 2 by simp
  next
    case True
    let ?w = "c # takeWhile az09 cs" and ?d = "dropWhile az09 cs"
    let ?R = "re_sub_runs non_az09 ''-''"
    let ?J = "join_runs (alnum_runs ?d)"
    have split: "c # cs = ?w @ ?d" by simp
    have w: "list_all az09 ?w" using True by (auto simp: list_all_iff dest: set_takeWhileD)
    have R: "?R (c # cs) = ?w @ ?R ?d"
      unfolding split [THEN arg_cong [of _ _ ?R]] using w by (rule collapse_az09_prefix)
    have ih: "strip_by is_sep (?R ?d) = ?J" using 2(1) True by simp
    have rd: "rstrip_by is_sep (?R ?d) = (if ?J = [] then [] else CHR ''-'' # ?J)"
    proof (cases ?d)
      case Nil
      show ?thesis unfolding Nil by simp
    next
      case (Cons e es)
      then have e: "non_az09 e" using dropWhile_head [of az09 cs] by auto
      let ?d' = "dropWhile non_az09 es"
      have hd': "?d' = [] \<or> az09 (hd ?d')" using dropWhile_head [of non_az09 es] by simp
      have Rd: "?R ?d = CHR ''-'' # ?R ?d'" using Cons e by simp
      have "strip_by is_sep (?R ?d) = rstrip_by is_sep (?R ?d')"
        using collapse_az09_head [OF hd'] by (simp add: Rd strip_by_def lstrip_by_def)
      with ih have "rstrip_by is_sep (?R ?d') = ?J" by simp
      then show ?thesis by (simp add: Rd rstrip_by_Cons)
    qed
    have lw: "rstrip_by is_sep ?w = ?w"
    proof (rule rstrip_by_id, rule disjI2)
      from last_run_az09 [OF True, of cs] show "\<not> is_sep (last ?w)" by auto
    qed
    have "c \<noteq> CHR ''-''" using True by auto
    then have "strip_by is_sep (?w @ ?R ?d) = rstrip_by is_sep (?w @ ?R ?d)"
      by (simp add: strip_by_def lstrip_by_def)
    then have "strip_by is_sep (?R (c # cs)) = rstrip_by is_sep (?w @ ?R ?d)"
      by (simp only: R)
    also have "\<dots> = (if ?J = [] then ?w else ?w @ CHR ''-'' # ?J)"
      unfolding rstrip_by_append [of is_sep ?w "?R ?d"] rd lw by simp
    also have "\<dots> = join_runs (?w # alnum_runs ?d)"
      using join_runs_Nil_iff [OF alnum_runs_nonempty, of ?d] by (simp add: join_runs_Cons)
    finally show ?thesis using True by simp
  qed
qed

lemma slugify_runs:
  "slugify x = (if alnum_runs (lower x) = [] then ''team'' else join_runs (alnum_runs (lower x)))"
  using join_runs_Nil_iff [OF alnum_runs_nonempty, of "lower x"]
  by (simp add: slugify_core4 strip_collapse_runs)

text \<open>
  C7. \<open>slugify\<close> is a function of its argument alone (a HOL function, so deterministic),
  and it is idempotent: slugifying a slug gives the same slug. It computes what the
  specification describes: lowercase the trimmed input, collapse every run of characters
  outside a to z and 0 to 9 to one separator, trim the separators at both ends, and put
  \<open>team\<close> for an empty result. The slug is the runs of letters and digits of the lowercased
  input joined by single separators, so two inputs whose lowercased forms have the same
  runs (they differ only by case, or by the punctuation and white space between and
  around the runs) have the same slug.
\<close>

theorem slugify_idempotent_refines_spec:
  "slugify (slugify x) = slugify x \<and>
   slugify x = slugify_spec x \<and>
   slugify x = (if alnum_runs (lower x) = [] then ''team'' else join_runs (alnum_runs (lower x))) \<and>
   (same_runs_up_to_case x y \<longrightarrow> slugify x = slugify y)"
proof (intro conjI impI)
  show "slugify (slugify x) = slugify x"
    by (rule slugify_fixed) (rule slugify_wf)
  show "slugify x = slugify_spec x"
    by (rule slugify_refines_spec)
  show "slugify x = (if alnum_runs (lower x) = [] then ''team'' else join_runs (alnum_runs (lower x)))"
    by (rule slugify_runs)
  show "slugify x = slugify y" if "same_runs_up_to_case x y"
    using that by (simp add: slugify_runs same_runs_up_to_case_def)
qed

theorem slugify_idempotent_refines_spec_witness:
  "same_runs_up_to_case ''Team A!'' '' team__a'' \<and>
   slugify ''Team A!'' = slugify '' team__a'' \<and>
   slugify ''Team A!'' = ''team-a'' \<and>
   slugify (slugify ''Team A!'') = slugify ''Team A!'' \<and>
   slugify_spec ''Team A!'' = ''team-a''"
proof -
  have h: "same_runs_up_to_case ''Team A!'' '' team__a''"
    by code_simp
  have v: "slugify ''Team A!'' = ''team-a''"
    by code_simp
  note inst = slugify_idempotent_refines_spec [of "''Team A!''" "'' team__a''"]
  from inst have a: "slugify (slugify ''Team A!'') = slugify ''Team A!''"
    by (rule conjunct1)
  from inst have b: "slugify_spec ''Team A!'' = slugify ''Team A!''"
    by simp
  from inst h have c: "slugify ''Team A!'' = slugify '' team__a''"
    by blast
  show ?thesis
    by (intro conjI) (rule h, rule c, rule v, rule a, simp only: b v)
qed

text \<open>A separator inside a run: the two inputs differ only by a hyphen and have
  different slugs.\<close>

theorem slugify_hyphen_counterexample:
  "slugify ''Team-1'' = ''team-1'' \<and> slugify ''Team1'' = ''team1'' \<and>
   slugify ''Team-1'' \<noteq> slugify ''Team1''"
proof -
  have a: "slugify ''Team-1'' = ''team-1''" by code_simp
  have b: "slugify ''Team1'' = ''team1''" by code_simp
  show ?thesis by (simp add: a b)
qed

section \<open>The steps of the two programs\<close>

lemma issue_simps [simp]:
  "calls (issue x w) = calls w @ [x]" "remote (issue x w) = remote w"
  "printed (issue x w) = printed w" "n_ok (issue x w) = n_ok w"
  "n_skip (issue x w) = n_skip w" "n_fail (issue x w) = n_fail w"
  by (simp_all add: issue_def)

lemma say_simps [simp]:
  "calls (say l w) = calls w" "remote (say l w) = remote w"
  "printed (say l w) = printed w @ [l]" "n_ok (say l w) = n_ok w"
  "n_skip (say l w) = n_skip w" "n_fail (say l w) = n_fail w"
  by (simp_all add: say_def)

lemma start_simps [simp]:
  "calls (start r) = []" "remote (start r) = r" "printed (start r) = []"
  "n_ok (start r) = 0" "n_skip (start r) = 0" "n_fail (start r) = 0"
  by (simp_all add: start_def)

text \<open>What each step issues, and where it leaves the remote.\<close>

lemma ensure_team_calls:
  "calls (snd (ensure_team c a g w)) =
     calls w @ Query_team (org a) (slugify g) #
       (if \<not> team_exists c (remote w) (org a) (slugify g) \<and> \<not> dry_run a
        then [Create_team (org a) g (team_privacy a)] else [])"
  by (simp add: ensure_team_def Let_def split: prod.splits option.splits)

lemma ensure_team_remote:
  "remote (snd (ensure_team c a g w)) =
     (if \<not> team_exists c (remote w) (org a) (slugify g) \<and> \<not> dry_run a
      then snd (create_team c (remote w) (org a) g (team_privacy a)) else remote w)"
  by (simp add: ensure_team_def Let_def split: prod.splits option.splits)

lemma ensure_instructor_calls:
  "calls (ensure_instructor c a t w u) =
     calls w @ Query_team_membership (org a) t u #
       (if team_membership c (remote w) (org a) t u \<noteq> Some Maintainer \<and> \<not> dry_run a
        then [Set_team_membership (org a) t u Maintainer] else [])"
  by (simp add: ensure_instructor_def Let_def split: prod.splits option.splits team_role.splits)

lemma ensure_instructor_remote:
  "remote (ensure_instructor c a t w u) =
     (if team_membership c (remote w) (org a) t u \<noteq> Some Maintainer \<and> \<not> dry_run a
      then snd (add_to_team c (remote w) (org a) t u Maintainer) else remote w)"
  by (simp add: ensure_instructor_def Let_def split: prod.splits option.splits team_role.splits)

lemma ensure_member_calls:
  "calls (ensure_member c a t w u) =
     calls w @ Query_team_membership (org a) t u #
       (if team_membership c (remote w) (org a) t u = None \<and> \<not> dry_run a
        then [Set_team_membership (org a) t u Member] else [])"
  by (simp add: ensure_member_def Let_def split: prod.splits option.splits)

lemma ensure_member_remote:
  "remote (ensure_member c a t w u) =
     (if team_membership c (remote w) (org a) t u = None \<and> \<not> dry_run a
      then snd (add_to_team c (remote w) (org a) t u Member) else remote w)"
  by (simp add: ensure_member_def Let_def split: prod.splits option.splits)

lemma process_student_calls:
  "calls (process_student c a w s) =
     calls w @
       (if CHR ''@'' \<notin> set (username s) then [Query_member (org a) (username s)] else []) @
       (if CHR ''@'' \<notin> set (username s) \<and> is_member c (remote w) (org a) (username s) then []
        else Query_pending (org a) (username s) #
          (if has_pending c (remote w) (org a) (username s) \<or> dry_run a then []
           else Query_uid (username s) #
             (case resolve_uid c (remote w) (username s) of
                None \<Rightarrow> []
              | Some uid \<Rightarrow> [Create_invitation (org a) uid (role a)])))"
  by (simp add: process_student_def Let_def split: prod.splits option.splits)

lemma process_student_spec:
  "spec_person c a (remote w) (username s) = (out, ms, r') \<Longrightarrow>
   remote (process_student c a w s) = r' \<and>
   map classify (drop (length (printed w)) (printed (process_student c a w s))) = [Some (username s, out)] \<and>
   take (length (printed w)) (printed (process_student c a w s)) = printed w \<and>
   filter mutating (calls (process_student c a w s)) = filter mutating (calls w) @ ms \<and>
   n_ok (process_student c a w s) = n_ok w + (if out \<in> {Would_invite_counted_ok, Invited_ok} then 1 else 0) \<and>
   n_skip (process_student c a w s) = n_skip w + (if out = Skipped then 1 else 0) \<and>
   n_fail (process_student c a w s) = n_fail w + (if out = Failed then 1 else 0)"
  by (auto simp: process_student_def spec_person_def Let_def split: prod.splits option.splits if_splits)

lemma process_student_printed:
  "spec_person c a (remote w) (username s) = (out, ms, r') \<Longrightarrow>
   \<exists>l. printed (process_student c a w s) = printed w @ [l] \<and> classify l = Some (username s, out)"
  by (auto simp: process_student_def spec_person_def Let_def split: prod.splits option.splits if_splits)

lemma count_outcomes_Cons:
  "count_outcomes os (x # xs) = (if snd x \<in> set os then 1 else 0) + count_outcomes os xs"
  by (simp add: count_outcomes_def)

lemma count_outcomes_Nil [simp]: "count_outcomes os [] = 0"
  by (simp add: count_outcomes_def)

lemma invite_loop_spec:
  "spec_people c a (remote w) (map username ss) = (outs, ms, r') \<Longrightarrow>
   remote (invite_loop c a w ss) = r' \<and>
   (\<exists>ls. printed (invite_loop c a w ss) = printed w @ ls \<and> map classify ls = map Some outs) \<and>
   map fst outs = map username ss \<and>
   filter mutating (calls (invite_loop c a w ss)) = filter mutating (calls w) @ ms \<and>
   n_ok (invite_loop c a w ss) = n_ok w + count_outcomes [Would_invite_counted_ok, Invited_ok] outs \<and>
   n_skip (invite_loop c a w ss) = n_skip w + count_outcomes [Skipped] outs \<and>
   n_fail (invite_loop c a w ss) = n_fail w + count_outcomes [Failed] outs"
proof (induction ss arbitrary: w outs ms r')
  case Nil
  then show ?case by simp
next
  case (Cons s ss)
  obtain out1 ms1 r1 where p: "spec_person c a (remote w) (username s) = (out1, ms1, r1)"
    by (cases "spec_person c a (remote w) (username s)") auto
  obtain outs2 ms2 r2 where q: "spec_people c a r1 (map username ss) = (outs2, ms2, r2)"
    by (cases "spec_people c a r1 (map username ss)") auto
  from Cons.prems p q have e: "outs = (username s, out1) # outs2" "ms = ms1 @ ms2" "r' = r2"
    by simp_all
  let ?w1 = "process_student c a w s"
  from process_student_spec [OF p] have w1: "remote ?w1 = r1"
    "filter mutating (calls ?w1) = filter mutating (calls w) @ ms1"
    "n_ok ?w1 = n_ok w + (if out1 \<in> {Would_invite_counted_ok, Invited_ok} then 1 else 0)"
    "n_skip ?w1 = n_skip w + (if out1 = Skipped then 1 else 0)"
    "n_fail ?w1 = n_fail w + (if out1 = Failed then 1 else 0)"
    by simp_all
  from process_student_printed [OF p] obtain l where
    l: "printed ?w1 = printed w @ [l]" "classify l = Some (username s, out1)" by blast
  from q w1(1) have "spec_people c a (remote ?w1) (map username ss) = (outs2, ms2, r2)" by simp
  from Cons.IH [OF this] obtain ls where ih:
    "remote (invite_loop c a ?w1 ss) = r2"
    "printed (invite_loop c a ?w1 ss) = printed ?w1 @ ls" "map classify ls = map Some outs2"
    "map fst outs2 = map username ss"
    "filter mutating (calls (invite_loop c a ?w1 ss)) = filter mutating (calls ?w1) @ ms2"
    "n_ok (invite_loop c a ?w1 ss) = n_ok ?w1 + count_outcomes [Would_invite_counted_ok, Invited_ok] outs2"
    "n_skip (invite_loop c a ?w1 ss) = n_skip ?w1 + count_outcomes [Skipped] outs2"
    "n_fail (invite_loop c a ?w1 ss) = n_fail ?w1 + count_outcomes [Failed] outs2"
    by blast
  have pr: "printed (invite_loop c a w (s # ss)) = printed w @ (l # ls) \<and>
     map classify (l # ls) = map Some outs"
    using ih(2,3) l e by simp
  show ?case
  proof (intro conjI)
    show "remote (invite_loop c a w (s # ss)) = r'" using ih(1) e by simp
    show "\<exists>ls. printed (invite_loop c a w (s # ss)) = printed w @ ls \<and> map classify ls = map Some outs"
      using pr by blast
    show "map fst outs = map username (s # ss)" using ih(4) e by simp
    show "filter mutating (calls (invite_loop c a w (s # ss))) = filter mutating (calls w) @ ms"
      using ih(5) w1(2) e by simp
    show "n_ok (invite_loop c a w (s # ss)) = n_ok w + count_outcomes [Would_invite_counted_ok, Invited_ok] outs"
      using ih(6) w1(3) e by (simp add: count_outcomes_Cons)
    show "n_skip (invite_loop c a w (s # ss)) = n_skip w + count_outcomes [Skipped] outs"
      using ih(7) w1(4) e by (simp add: count_outcomes_Cons)
    show "n_fail (invite_loop c a w (s # ss)) = n_fail w + count_outcomes [Failed] outs"
      using ih(8) w1(5) e by (simp add: count_outcomes_Cons)
  qed
qed

lemma gh_prechecks_frame:
  "gh_prechecks c o' w = (res, w') \<Longrightarrow>
   remote w' = remote w \<and> printed w' = printed w \<and>
   n_ok w' = n_ok w \<and> n_skip w' = n_skip w \<and> n_fail w' = n_fail w \<and>
   (\<exists>cs. calls w' = calls w @ cs \<and> list_all is_precheck cs)"
  by (auto simp: gh_prechecks_def Let_def split: if_splits)

lemma gh_prechecks_result:
  "gh_prechecks c o' w = (res, w') \<Longrightarrow> res = None \<or> (\<exists>n. res = Some (Exit n) \<and> n \<noteq> 0)"
  by (auto simp: gh_prechecks_def Let_def split: if_splits)

lemma gh_prechecks_pass:
  "gh_version c (remote w) = 0 \<Longrightarrow> gh_auth_status c (remote w) = 0 \<Longrightarrow>
   gh_org c (remote w) o' = 0 \<Longrightarrow> fst (gh_prechecks c o' w) = None"
  by (simp add: gh_prechecks_def Let_def)

lemma gh_ok_frame:
  "gh_ok c o' w = (res, w') \<Longrightarrow>
   remote w' = remote w \<and> printed w' = printed w \<and>
   n_ok w' = n_ok w \<and> n_skip w' = n_skip w \<and> n_fail w' = n_fail w \<and>
   (\<exists>cs. calls w' = calls w @ cs \<and> list_all is_precheck cs)"
  by (auto simp: gh_ok_def Let_def split: if_splits)

lemma gh_ok_result:
  "gh_ok c o' w = (res, w') \<Longrightarrow> res = None \<or> res = Some (Exit 1)"
  by (auto simp: gh_ok_def Let_def split: if_splits)

lemma gh_ok_pass:
  "gh_auth_status c (remote w) = 0 \<Longrightarrow> gh_org c (remote w) o' = 0 \<Longrightarrow>
   fst (gh_ok c o' w) = None"
  by (simp add: gh_ok_def Let_def)

section \<open>The invitation workflow\<close>

lemma precheck_not_mutating: "is_precheck x \<Longrightarrow> \<not> mutating x"
  by (cases x) simp_all

lemma prechecks_filter_mutating: "list_all is_precheck cs \<Longrightarrow> filter mutating cs = []"
  by (induction cs) (auto simp: precheck_not_mutating)

text \<open>
  C3. In a run of the invitation workflow that gets past the pre-checks and the loader, the
  printed outcomes are, person by person in the order of the de-duplicated roster, those
  of the specification's decision: skip for a member whose identifier has no "@", else
  skip for a pending invitation, else in dry-run mode a success that issues no mutating
  command, else failed when the user id does not resolve, else an invitation, invited when
  it succeeds and failed when it does not. The mutating commands, the remote state and
  the three counters are those of the same decisions.
\<close>

theorem invitation_decisions_in_order:
  assumes "main_invite c a r0 = (None, w)"
    and "load_students_invite (roster_file a) = Inr students"
  shows "case spec_people c a r0 (map username (dedupe {} students)) of
           (outs, ms, r') \<Rightarrow>
             map classify (printed w) = map Some outs \<and>
             map fst outs = map username (dedupe {} students) \<and>
             filter mutating (calls w) = ms \<and>
             remote w = r' \<and>
             n_ok w = count_outcomes [Would_invite_counted_ok, Invited_ok] outs \<and>
             n_skip w = count_outcomes [Skipped] outs \<and>
             n_fail w = count_outcomes [Failed] outs"
proof -
  obtain res w0 where g: "gh_prechecks c (org a) (start r0) = (res, w0)"
    by (cases "gh_prechecks c (org a) (start r0)") auto
  with assms have res: "res = None" and w: "w = invite_loop c a w0 (dedupe {} students)"
    by (auto simp: main_invite_def split: option.splits)
  from gh_prechecks_frame [OF g] obtain cs where w0:
    "remote w0 = r0" "printed w0 = []" "n_ok w0 = 0" "n_skip w0 = 0" "n_fail w0 = 0"
    "calls w0 = cs" "list_all is_precheck cs"
    by auto
  obtain outs ms r' where sp:
    "spec_people c a r0 (map username (dedupe {} students)) = (outs, ms, r')"
    by (cases "spec_people c a r0 (map username (dedupe {} students))") auto
  then have "spec_people c a (remote w0) (map username (dedupe {} students)) = (outs, ms, r')"
    by (simp add: w0)
  from invite_loop_spec [OF this] w0 w sp show ?thesis
    by (auto simp: prechecks_filter_mutating)
qed

theorem invitation_decisions_in_order_witness:
  "fst (main_invite in_memory (invite_run four_people False) small_org) = None \<and>
   map classify (printed (snd (main_invite in_memory (invite_run four_people False) small_org)))
     = [Some (''alice'', Skipped), Some (''bob'', Skipped), Some (''carol'', Invited_ok),
        Some (''dave'', Failed)] \<and>
   filter mutating (calls (snd (main_invite in_memory (invite_run four_people False) small_org)))
     = [Create_invitation ''o'' 7 Direct_member] \<and>
   n_ok (snd (main_invite in_memory (invite_run four_people False) small_org)) = 1 \<and>
   n_skip (snd (main_invite in_memory (invite_run four_people False) small_org)) = 2 \<and>
   n_fail (snd (main_invite in_memory (invite_run four_people False) small_org)) = 1"
proof -
  let ?a = "invite_run four_people False"
  let ?students = "[\<lparr>name = [], username = ''alice''\<rparr>, \<lparr>name = [], username = ''bob''\<rparr>,
    \<lparr>name = [], username = ''carol''\<rparr>, \<lparr>name = [], username = ''dave''\<rparr>,
    \<lparr>name = [], username = ''alice''\<rparr>]"
  have f: "fst (main_invite in_memory ?a small_org) = None"
    by code_simp
  then have m: "main_invite in_memory ?a small_org = (None, snd (main_invite in_memory ?a small_org))"
    by (metis prod.collapse)
  have l: "load_students_invite (roster_file ?a) = Inr ?students"
    by code_simp
  have sp: "spec_people in_memory ?a small_org (map username (dedupe {} ?students)) =
     ([(''alice'', Skipped), (''bob'', Skipped), (''carol'', Invited_ok), (''dave'', Failed)],
      [Create_invitation ''o'' 7 Direct_member],
      small_org\<lparr>pending := [''bob'', ''carol'']\<rparr>)"
    by code_simp
  have c1: "count_outcomes [Would_invite_counted_ok, Invited_ok]
      [(''alice'', Skipped), (''bob'', Skipped), (''carol'', Invited_ok), (''dave'', Failed)] = 1"
    and c2: "count_outcomes [Skipped]
      [(''alice'', Skipped), (''bob'', Skipped), (''carol'', Invited_ok), (''dave'', Failed)] = 2"
    and c3: "count_outcomes [Failed]
      [(''alice'', Skipped), (''bob'', Skipped), (''carol'', Invited_ok), (''dave'', Failed)] = 1"
    by (simp_all add: count_outcomes_def)
  from invitation_decisions_in_order [OF m l] f show ?thesis
    unfolding sp by (simp add: c1 c2 c3)
qed

section \<open>An empty roster\<close>

lemma prechecks_start:
  assumes g: "gh_prechecks c o' (start r0) = (res, w0)"
  shows "remote w0 = r0 \<and> printed w0 = [] \<and> list_all is_precheck (calls w0)"
  using gh_prechecks_frame [OF g] by auto

lemma gh_ok_start:
  assumes g: "gh_ok c o' (start r0) = (res, w0)"
  shows "remote w0 = r0 \<and> printed w0 = [] \<and> list_all is_precheck (calls w0)"
  using gh_ok_frame [OF g] by auto

lemma main_invite_no_roster:
  assumes l: "load_students_invite (roster_file a) = Inl (Exit 1)"
  shows "(\<exists>n. fst (main_invite c a r0) = Some (Exit n) \<and> n \<noteq> 0) \<and>
     list_all is_precheck (calls (snd (main_invite c a r0))) \<and>
     printed (snd (main_invite c a r0)) = [] \<and>
     remote (snd (main_invite c a r0)) = r0"
proof -
  obtain res w0 where g: "gh_prechecks c (org a) (start r0) = (res, w0)"
    by (cases "gh_prechecks c (org a) (start r0)") auto
  have m: "main_invite c a r0 = (if res = None then Some (Exit 1) else res, w0)"
    by (cases res) (simp_all add: main_invite_def g l)
  have "\<exists>n. fst (main_invite c a r0) = Some (Exit n) \<and> n \<noteq> 0"
    using gh_prechecks_result [OF g] by (auto simp: m)
  with prechecks_start [OF g] show ?thesis by (simp add: m)
qed

lemma main_groups_load_fails:
  assumes g: "gh_ok c (org b) (start r0) = (res, w0)"
    and l: "load_students_groups (roster_file b) = Inl e"
  shows "main_groups c b r0 = (if res = None then Some e else res, w0)"
  unfolding main_groups_def g l
  by (cases res) (simp_all only: prod.case option.case sum.case if_True if_False option.distinct refl)

lemma main_groups_loaded:
  assumes g: "gh_ok c (org b) (start r0) = (None, w0)"
    and l: "load_students_groups (roster_file b) = Inr students"
  shows "main_groups c b r0 =
     groups_loop c b (parse_instructors (instructors b)) w0 (sorted_items (build_groups students))"
  unfolding main_groups_def g l
  by (simp only: prod.case option.case sum.case)

lemma main_groups_precheck_fails:
  assumes g: "gh_ok c (org b) (start r0) = (Some e, w0)"
  shows "main_groups c b r0 = (Some e, w0)"
  unfolding main_groups_def g
  by (simp only: prod.case option.case)

lemma main_groups_no_roster:
  assumes l: "load_students_groups (roster_file b) = Inl (Exit 1)"
  shows "(\<exists>n. fst (main_groups c b r0) = Some (Exit n) \<and> n \<noteq> 0) \<and>
     list_all is_precheck (calls (snd (main_groups c b r0))) \<and>
     printed (snd (main_groups c b r0)) = [] \<and>
     remote (snd (main_groups c b r0)) = r0"
proof -
  obtain res w0 where g: "gh_ok c (org b) (start r0) = (res, w0)"
    by (cases "gh_ok c (org b) (start r0)") auto
  note m = main_groups_load_fails [OF g l]
  have "fst (main_groups c b r0) = Some (Exit 1)"
    using gh_ok_result [OF g] by (rule disjE) (simp_all add: m)
  then have ex: "\<exists>n. fst (main_groups c b r0) = Some (Exit n) \<and> n \<noteq> 0"
    by simp
  from gh_ok_start [OF g] have rest: "list_all is_precheck (calls (snd (main_groups c b r0))) \<and>
     printed (snd (main_groups c b r0)) = [] \<and>
     remote (snd (main_groups c b r0)) = r0"
    by (simp add: m)
  from ex rest show ?thesis by (rule conjI)
qed

text \<open>
  When the roster parses and the loop of the loader collects no row, the loader ends the
  process with status 1. The program then ends with a non-zero status, having issued only
  the commands of the pre-checks: nothing is printed for any person or team and the
  organization is untouched. This holds for the loader of either program.
\<close>

lemma no_rows_is_fatal:
  "(json_loads (tolerate_trailing_commas (roster_file a)) = Inr data \<and> invite_collect data = Inr []
      \<longrightarrow> load_students_invite (roster_file a) = Inl (Exit 1) \<and>
          (\<exists>n. fst (main_invite c a r0) = Some (Exit n) \<and> n \<noteq> 0) \<and>
          list_all is_precheck (calls (snd (main_invite c a r0))) \<and>
          printed (snd (main_invite c a r0)) = [] \<and>
          remote (snd (main_invite c a r0)) = r0) \<and>
   (json_loads (tolerate_trailing_commas (roster_file b)) = Inr data' \<and> group_collect data' = Inr []
      \<longrightarrow> load_students_groups (roster_file b) = Inl (Exit 1) \<and>
          (\<exists>n. fst (main_groups c b r0) = Some (Exit n) \<and> n \<noteq> 0) \<and>
          list_all is_precheck (calls (snd (main_groups c b r0))) \<and>
          printed (snd (main_groups c b r0)) = [] \<and>
          remote (snd (main_groups c b r0)) = r0)"
proof (rule conjI; rule impI)
  assume h: "json_loads (tolerate_trailing_commas (roster_file a)) = Inr data \<and> invite_collect data = Inr []"
  then have l: "load_students_invite (roster_file a) = Inl (Exit 1)"
    by (simp add: load_students_invite_def)
  from l main_invite_no_roster [OF l, of c r0]
  show "load_students_invite (roster_file a) = Inl (Exit 1) \<and>
          (\<exists>n. fst (main_invite c a r0) = Some (Exit n) \<and> n \<noteq> 0) \<and>
          list_all is_precheck (calls (snd (main_invite c a r0))) \<and>
          printed (snd (main_invite c a r0)) = [] \<and>
          remote (snd (main_invite c a r0)) = r0"
    by (rule conjI)
next
  assume h: "json_loads (tolerate_trailing_commas (roster_file b)) = Inr data' \<and> group_collect data' = Inr []"
  then have l: "load_students_groups (roster_file b) = Inl (Exit 1)"
    by (simp add: load_students_groups_def)
  from l main_groups_no_roster [OF l, of c r0]
  show "load_students_groups (roster_file b) = Inl (Exit 1) \<and>
          (\<exists>n. fst (main_groups c b r0) = Some (Exit n) \<and> n \<noteq> 0) \<and>
          list_all is_precheck (calls (snd (main_groups c b r0))) \<and>
          printed (snd (main_groups c b r0)) = [] \<and>
          remote (snd (main_groups c b r0)) = r0"
    by (rule conjI)
qed

lemma no_rows_is_fatal_example:
  "json_loads (tolerate_trailing_commas ''[]'') = Inr (JArr []) \<and>
   invite_collect (JArr []) = Inr [] \<and> group_collect (JArr []) = Inr [] \<and>
   load_students_invite ''[]'' = Inl (Exit 1) \<and>
   load_students_groups ''[]'' = Inl (Exit 1) \<and>
   fst (main_invite in_memory (invite_run ''[]'' False) small_org) = Some (Exit 1) \<and>
   fst (main_groups in_memory (groups_run ''[]'' ''ta'' False) small_org) = Some (Exit 1) \<and>
   calls (snd (main_invite in_memory (invite_run ''[]'' False) small_org))
     = [Gh_version, Gh_auth_status, Gh_org ''o''] \<and>
   calls (snd (main_groups in_memory (groups_run ''[]'' ''ta'' False) small_org))
     = [Gh_auth_status, Gh_org ''o'']"
proof -
  let ?a = "invite_run ''[]'' False" and ?b = "groups_run ''[]'' ''ta'' False"
  have p: "json_loads (tolerate_trailing_commas ''[]'') = Inr (JArr [])"
    by code_simp
  have i: "invite_collect (JArr []) = Inr []" and g: "group_collect (JArr []) = Inr []"
    by (simp_all add: invite_collect_def group_collect_def iterate_def)
  have ra: "roster_file ?a = ''[]''" and rb: "roster_file ?b = ''[]''"
    by (simp_all add: invite_run_def groups_run_def)
  note inst = no_rows_is_fatal [of ?a "JArr []" in_memory small_org ?b "JArr []"]
  have 1: "load_students_invite ''[]'' = Inl (Exit 1)"
    using inst p i by (simp add: ra)
  have 2: "load_students_groups ''[]'' = Inl (Exit 1)"
    using inst p g by (simp add: rb)
  have 3: "fst (main_invite in_memory ?a small_org) = Some (Exit 1)"
    by code_simp
  have 4: "fst (main_groups in_memory ?b small_org) = Some (Exit 1)"
    by code_simp
  have 5: "calls (snd (main_invite in_memory ?a small_org)) = [Gh_version, Gh_auth_status, Gh_org ''o'']"
    by code_simp
  have 6: "calls (snd (main_groups in_memory ?b small_org)) = [Gh_auth_status, Gh_org ''o'']"
    by code_simp
  show ?thesis using p i g 1 2 3 4 5 6 by simp
qed

text \<open>
  C8. A roster that yields no valid record must end the process with a non-zero status
  before any reconciliation. The loader of \<open>manage_groups.py\<close> does so for a roster whose
  usernames are blank or only the sigil: it normalizes the username and then tests it. The
  loader of \<open>invite_to_org.py\<close> tests the raw username and normalizes afterwards: on such a
  roster it returns two rows with the empty username, and the program goes on to query the
  organization for the empty username and ends with status 0.
\<close>

theorem blank_usernames_are_not_fatal:
  "load_students_groups blank_usernames_grouped = Inl (Exit 1) \<and>
   load_students_invite blank_usernames =
     Inr [\<lparr>name = [], username = []\<rparr>, \<lparr>name = [], username = []\<rparr>] \<and>
   exit_status (fst (main_invite in_memory (invite_run blank_usernames False) small_org)) = Some 0 \<and>
   calls (snd (main_invite in_memory (invite_run blank_usernames False) small_org)) =
     [Gh_version, Gh_auth_status, Gh_org ''o'',
      Query_member ''o'' [], Query_pending ''o'' [], Query_uid []] \<and>
   printed (snd (main_invite in_memory (invite_run blank_usernames False) small_org)) =
     [Cannot_resolve []]"
proof -
  have 1: "load_students_groups blank_usernames_grouped = Inl (Exit 1)"
    by code_simp
  have 2: "load_students_invite blank_usernames =
     Inr [\<lparr>name = [], username = []\<rparr>, \<lparr>name = [], username = []\<rparr>]"
    by code_simp
  have 3: "fst (main_invite in_memory (invite_run blank_usernames False) small_org) = None"
    by code_simp
  have 4: "calls (snd (main_invite in_memory (invite_run blank_usernames False) small_org)) =
     [Gh_version, Gh_auth_status, Gh_org ''o'',
      Query_member ''o'' [], Query_pending ''o'' [], Query_uid []]"
    by code_simp
  have 5: "printed (snd (main_invite in_memory (invite_run blank_usernames False) small_org)) =
     [Cannot_resolve []]"
    by code_simp
  show ?thesis by (simp add: 1 2 3 4 5)
qed

section \<open>The trailing-comma pass\<close>

text \<open>
  C9. The trailing-comma pass works on the text of the file, not on its JSON structure.
  There is a roster in which a quoted name contains a comma, a space and a closing
  bracket: the pass deletes the comma and the space inside the string, so both loaders
  return the name without them, where a parse of the file as it stands gives the name as
  written.
\<close>

theorem trailing_comma_pass_alters_strings:
  "tolerate_trailing_commas comma_in_name
     = ''[{\"username\":\"bob\",\"name\":\"Bob]\",\"group\":\"G\"}]'' \<and>
   strict_invite comma_in_name = Inr [\<lparr>name = ''Bob, ]'', username = ''bob''\<rparr>] \<and>
   load_students_invite comma_in_name = Inr [\<lparr>name = ''Bob]'', username = ''bob''\<rparr>] \<and>
   strict_groups comma_in_name = Inr [\<lparr>name = ''Bob, ]'', username = ''bob'', group = ''G''\<rparr>] \<and>
   load_students_groups comma_in_name = Inr [\<lparr>name = ''Bob]'', username = ''bob'', group = ''G''\<rparr>]"
proof -
  have 1: "tolerate_trailing_commas comma_in_name
     = ''[{\"username\":\"bob\",\"name\":\"Bob]\",\"group\":\"G\"}]''"
    by code_simp
  have 2: "strict_invite comma_in_name = Inr [\<lparr>name = ''Bob, ]'', username = ''bob''\<rparr>]"
    by code_simp
  have 3: "load_students_invite comma_in_name = Inr [\<lparr>name = ''Bob]'', username = ''bob''\<rparr>]"
    by code_simp
  have 4: "strict_groups comma_in_name
     = Inr [\<lparr>name = ''Bob, ]'', username = ''bob'', group = ''G''\<rparr>]"
    by code_simp
  have 5: "load_students_groups comma_in_name
     = Inr [\<lparr>name = ''Bob]'', username = ''bob'', group = ''G''\<rparr>]"
    by code_simp
  show ?thesis by (simp only: 1 2 3 4 5 simp_thms)
qed

section \<open>Invariants of the runs\<close>

subsection \<open>Invariants of the loops\<close>


lemma instructors_loop_invariant:
  assumes step: "\<And>w u. Inv w \<Longrightarrow> Inv (ensure_instructor c a t w u)"
  shows "Inv w \<Longrightarrow> Inv (instructors_loop c a t w us)"
  by (induction us arbitrary: w) (simp_all add: step)

lemma members_loop_invariant:
  assumes step: "\<And>w u. Inv w \<Longrightarrow> Inv (ensure_member c a t w u)"
  shows "Inv w \<Longrightarrow> Inv (members_loop c a t w us)"
  by (induction us arbitrary: w) (simp_all add: step)

lemma process_group_invariant:
  assumes team: "\<And>w g. Inv w \<Longrightarrow> Inv (snd (ensure_team c a g w))"
    and instructor: "\<And>w g u. Inv w \<Longrightarrow> Inv (ensure_instructor c a (slugify g) w u)"
    and member: "\<And>w g u. Inv w \<Longrightarrow> Inv (ensure_member c a (slugify g) w u)"
    and w: "Inv w"
  shows "Inv (snd (process_group c a instr w item))"
proof -
  obtain res w1 where e: "ensure_team c a (fst item) w = (res, w1)"
    by (cases "ensure_team c a (fst item) w") auto
  from team [OF w, of "fst item"] e have w1: "Inv w1" by simp
  have i: "Inv (instructors_loop c a (slugify (fst item)) w1 instr)"
  proof (rule instructors_loop_invariant [of Inv c a "slugify (fst item)"])
    show "Inv (ensure_instructor c a (slugify (fst item)) w' u)" if "Inv w'" for w' u
      using that by (rule instructor)
    show "Inv w1" by (rule w1)
  qed
  have "Inv (members_loop c a (slugify (fst item))
           (instructors_loop c a (slugify (fst item)) w1 instr) (snd item))"
  proof (rule members_loop_invariant [of Inv c a "slugify (fst item)"])
    show "Inv (ensure_member c a (slugify (fst item)) w' u)" if "Inv w'" for w' u
      using that by (rule member)
    show "Inv (instructors_loop c a (slugify (fst item)) w1 instr)" by (rule i)
  qed
  with w1 e show ?thesis
    by (cases res) (simp_all add: process_group_def)
qed

lemma groups_loop_invariant:
  assumes team: "\<And>w g. Inv w \<Longrightarrow> Inv (snd (ensure_team c a g w))"
    and instructor: "\<And>w g u. Inv w \<Longrightarrow> Inv (ensure_instructor c a (slugify g) w u)"
    and member: "\<And>w g u. Inv w \<Longrightarrow> Inv (ensure_member c a (slugify g) w u)"
  shows "Inv w \<Longrightarrow> Inv (snd (groups_loop c a instr w items))"
proof (induction items arbitrary: w)
  case Nil
  then show ?case by simp
next
  case (Cons item items)
  obtain res w1 where p: "process_group c a instr w item = (res, w1)"
    by (cases "process_group c a instr w item") auto
  from process_group_invariant [of Inv c a w instr item, OF team instructor member Cons.prems] p
  have w1: "Inv w1" by simp
  show ?case
  proof (cases res)
    case None
    with p Cons.IH [OF w1] show ?thesis by simp
  next
    case (Some e)
    with p w1 show ?thesis by simp
  qed
qed


lemma gh_ok_invariant:
  assumes pre: "\<And>w x. is_precheck x \<Longrightarrow> Inv w \<Longrightarrow> Inv (issue x w)"
  shows "Inv w \<Longrightarrow> Inv (snd (gh_ok c o' w))"
  by (simp add: gh_ok_def Let_def pre)

lemma main_invite_cases:
  "main_invite c a r0 =
     (case gh_prechecks c (org a) (start r0) of
        (Some e, w) \<Rightarrow> (Some e, w)
      | (None, w) \<Rightarrow>
          (case load_students_invite (roster_file a) of
             Inl e \<Rightarrow> (Some e, w)
           | Inr students \<Rightarrow> (None, invite_loop c a w (dedupe {} students))))"
  by (rule main_invite_def)


lemma main_groups_invariant:
  assumes pre: "\<And>w x. is_precheck x \<Longrightarrow> Inv w \<Longrightarrow> Inv (issue x w)"
    and team: "\<And>w g. Inv w \<Longrightarrow> Inv (snd (ensure_team c a g w))"
    and instructor: "\<And>w g u. Inv w \<Longrightarrow> Inv (ensure_instructor c a (slugify g) w u)"
    and member: "\<And>w g u. Inv w \<Longrightarrow> Inv (ensure_member c a (slugify g) w u)"
    and init: "Inv (start r0)"
  shows "Inv (snd (main_groups c a r0))"
proof -
  obtain res w0 where g: "gh_ok c (org a) (start r0) = (res, w0)"
    by (cases "gh_ok c (org a) (start r0)") auto
  from gh_ok_invariant [of Inv, OF pre init, of c "org a"] g have w0: "Inv w0" by simp
  show ?thesis
  proof (cases res)
    case (Some e)
    with g w0 show ?thesis by (simp add: main_groups_precheck_fails)
  next
    case None
    show ?thesis
    proof (cases "load_students_groups (roster_file a)")
      case (Inl e)
      from main_groups_load_fails [OF g Inl] None w0 show ?thesis by simp
    next
      case (Inr students)
      from g None have g': "gh_ok c (org a) (start r0) = (None, w0)" by simp
      from groups_loop_invariant [of Inv c a w0, OF team instructor member w0]
      show ?thesis by (simp add: main_groups_loaded [OF g' Inr])
    qed
  qed
qed

section \<open>De-duplication and grouping\<close>

lemma dedupe_subseq: "subseq (dedupe seen xs) xs"
  by (induction xs arbitrary: seen) auto

lemma dedupe_keys: "set (map username (dedupe seen xs)) = set (map username xs) - seen"
  by (induction xs arbitrary: seen) auto

lemma dedupe_distinct: "distinct (map username (dedupe seen xs))"
  by (induction xs arbitrary: seen) (auto simp: dedupe_keys [simplified])

lemma dedupe_first:
  "r \<in> set (dedupe seen xs) \<Longrightarrow>
   find (\<lambda>s. username s = username r) xs = Some r"
proof (induction xs arbitrary: seen)
  case Nil
  then show ?case by simp
next
  case (Cons x xs)
  show ?case
  proof (cases "username x = username r")
    case True
    have "username r \<notin> set (map username (dedupe (insert (username x) seen) xs))"
      using True by (simp add: dedupe_keys del: set_map)
    then have "r \<notin> set (dedupe (insert (username x) seen) xs)" by auto
    moreover have "username r \<notin> seen"
      using Cons.prems dedupe_keys [of seen "x # xs"] by (auto simp del: dedupe.simps)
    ultimately have "r = x" using Cons.prems True by (auto split: if_splits)
    with True show ?thesis by simp
  next
    case False
    with Cons.prems have "r \<in> set (dedupe seen xs) \<or> r \<in> set (dedupe (insert (username x) seen) xs)"
      by (auto split: if_splits)
    with Cons.IH False show ?thesis by auto
  qed
qed

lemma setdefault_append_lookup:
  "map_of (setdefault_append g u gs) k =
     (if k = g then Some ((case map_of gs g of None \<Rightarrow> [] | Some ms \<Rightarrow> ms) @ [u])
      else map_of gs k)"
  by (induction g u gs rule: setdefault_append.induct) auto

lemma setdefault_append_keys:
  "map fst (setdefault_append g u gs) = (if g \<in> set (map fst gs) then map fst gs else map fst gs @ [g])"
  by (induction g u gs rule: setdefault_append.induct) auto

lemma foldl_groups_lookup:
  "map_of (foldl (\<lambda>groups s. setdefault_append (group s) (username s) groups) gs rows) k =
     (if k \<in> group ` set rows
      then Some ((case map_of gs k of None \<Rightarrow> [] | Some ms \<Rightarrow> ms)
                 @ map username (filter (\<lambda>s. group s = k) rows))
      else map_of gs k)"
proof (induction rows arbitrary: gs)
  case Nil
  show ?case by simp
next
  case (Cons r rows)
  show ?case
    unfolding foldl_Cons Cons.IH
    by (auto simp: setdefault_append_lookup filter_empty_conv split: option.splits)
       (metis imageI)
qed

lemma foldl_groups_distinct:
  "distinct (map fst gs) \<Longrightarrow>
   distinct (map fst (foldl (\<lambda>groups s. setdefault_append (group s) (username s) groups) gs rows))"
proof (induction rows arbitrary: gs)
  case Nil
  then show ?case by simp
next
  case (Cons r rows)
  have "distinct (map fst (setdefault_append (group r) (username r) gs))"
    using Cons.prems by (simp add: setdefault_append_keys)
  from Cons.IH [OF this] show ?case by simp
qed

lemma build_groups_lookup:
  "map_of (build_groups rows) k =
     (if k \<in> group ` set rows then Some (map username (filter (\<lambda>s. group s = k) rows)) else None)"
  by (simp add: build_groups_def foldl_groups_lookup)

lemma build_groups_distinct: "distinct (map fst (build_groups rows))"
  by (simp add: build_groups_def foldl_groups_distinct)

lemma sorted_items_props:
  "sorted (map fst (sorted_items gs)) \<and> set (sorted_items gs) = set gs \<and>
   (distinct (map fst gs) \<longrightarrow> distinct (map fst (sorted_items gs)))"
  by (auto simp: sorted_items_def distinct_map)

lemma main_invite_loaded:
  assumes g: "gh_prechecks c (org a) (start r0) = (None, w0)"
    and l: "load_students_invite (roster_file a) = Inr students"
  shows "main_invite c a r0 = (None, invite_loop c a w0 (dedupe {} students))"
  unfolding main_invite_def g l
  by (simp only: prod.case option.case sum.case)

text \<open>
  C2. The invitation workflow de-duplicates the loaded records by username: the records
  it processes are a subsequence of the loaded ones (the order is kept), no username occurs
  twice, every loaded username is still there, and the record kept for a username is the
  first one loaded with it. The team workflow does not de-duplicate: it gives each group
  the usernames of the group's records in roster order, repeats included, and processes
  the groups so built. For the scenario roster (alice, bob, alice in group "A", with a
  trailing comma) the invitation workflow keeps alice and bob; the team workflow loads
  three records into the one group "A", whose member list is alice, bob, alice, under the
  slug "a".
\<close>

theorem deduplication_by_workflow:
  "subseq (dedupe {} xs) xs \<and>
   distinct (map username (dedupe {} xs)) \<and>
   set (map username (dedupe {} xs)) = set (map username xs) \<and>
   (\<forall>r \<in> set (dedupe {} xs). find (\<lambda>s. username s = username r) xs = Some r) \<and>
   (gh_prechecks c (org a) (start r0) = (None, w0) \<and>
    load_students_invite (roster_file a) = Inr students
      \<longrightarrow> main_invite c a r0 = (None, invite_loop c a w0 (dedupe {} students))) \<and>
   map_of (build_groups rows) k =
     (if k \<in> group ` set rows then Some (map username (filter (\<lambda>s. group s = k) rows)) else None) \<and>
   distinct (map fst (build_groups rows)) \<and>
   (gh_ok c (org b) (start r0) = (None, w1) \<and>
    load_students_groups (roster_file b) = Inr rows
      \<longrightarrow> main_groups c b r0 =
            groups_loop c b (parse_instructors (instructors b)) w1
              (sorted_items (build_groups rows))) \<and>
   load_students_invite scenario_roster = Inr scenario_students \<and>
   map username (dedupe {} scenario_students) = [''alice'', ''bob''] \<and>
   load_students_groups scenario_roster = Inr scenario_grouped \<and>
   sorted_items (build_groups scenario_grouped) = [(''A'', [''alice'', ''bob'', ''alice''])] \<and>
   slugify ''A'' = ''a''"
proof -
  have 1: "load_students_invite scenario_roster = Inr scenario_students"
    by code_simp
  have 2: "map username (dedupe {} scenario_students) = [''alice'', ''bob'']"
    by code_simp
  have 3: "load_students_groups scenario_roster = Inr scenario_grouped"
    by code_simp
  have 4: "sorted_items (build_groups scenario_grouped) = [(''A'', [''alice'', ''bob'', ''alice''])]"
    by code_simp
  have 5: "slugify ''A'' = ''a''"
    by code_simp
  have 6: "\<forall>r \<in> set (dedupe {} xs). find (\<lambda>s. username s = username r) xs = Some r"
    using dedupe_first by blast
  have 7: "set (map username (dedupe {} xs)) = set (map username xs)"
    using dedupe_keys [of "{}" xs] by simp
  show ?thesis
    using dedupe_subseq [of "{}" xs] dedupe_distinct [of "{}" xs] 6 7
      build_groups_lookup [of rows k] build_groups_distinct [of rows]
      main_invite_loaded [of c a r0 w0 students] main_groups_loaded [of c b r0 w1 rows]
    by (simp only: 1 2 3 4 5 simp_thms) blast
qed

theorem deduplication_by_workflow_witness:
  "gh_prechecks in_memory (org (invite_run scenario_roster True)) (start empty_org)
     = (None, issue (Gh_org ''o'') (issue Gh_auth_status (issue Gh_version (start empty_org)))) \<and>
   main_invite in_memory (invite_run scenario_roster True) empty_org
     = (None, invite_loop in_memory (invite_run scenario_roster True)
               (issue (Gh_org ''o'') (issue Gh_auth_status (issue Gh_version (start empty_org))))
               (dedupe {} scenario_students)) \<and>
   map username (dedupe {} scenario_students) = [''alice'', ''bob''] \<and>
   find (\<lambda>s. username s = ''alice'') scenario_students = Some \<lparr>name = [], username = ''alice''\<rparr> \<and>
   map_of (build_groups scenario_grouped) ''A'' = Some [''alice'', ''bob'', ''alice'']"
proof -
  let ?a = "invite_run scenario_roster True"
  let ?w0 = "issue (Gh_org ''o'') (issue Gh_auth_status (issue Gh_version (start empty_org)))"
  note inst = deduplication_by_workflow [of scenario_students in_memory ?a empty_org ?w0
      scenario_students scenario_grouped "''A''"]
  have g: "gh_prechecks in_memory (org ?a) (start empty_org) = (None, ?w0)"
    by (simp add: gh_prechecks_def in_memory_def Let_def invite_run_def)
  have l: "load_students_invite (roster_file ?a) = Inr scenario_students"
    using inst by (simp add: invite_run_def)
  from inst g l have m: "main_invite in_memory ?a empty_org
     = (None, invite_loop in_memory ?a ?w0 (dedupe {} scenario_students))"
    by blast
  from inst have d: "map username (dedupe {} scenario_students) = [''alice'', ''bob'']"
    by blast
  have f: "find (\<lambda>s. username s = ''alice'') scenario_students = Some \<lparr>name = [], username = ''alice''\<rparr>"
    by (simp add: scenario_students_def)
  have "''A'' \<in> group ` set scenario_grouped"
    by (simp add: scenario_grouped_def)
  with inst have b: "map_of (build_groups scenario_grouped) ''A''
      = Some (map username (filter (\<lambda>s. group s = ''A'') scenario_grouped))"
    by simp
  have b': "map username (filter (\<lambda>s. group s = ''A'') scenario_grouped) = [''alice'', ''bob'', ''alice'']"
    by (simp add: scenario_grouped_def)
  show ?thesis
    by (intro conjI) (rule g, rule m, rule d, rule f, simp only: b b')
qed

text \<open>The team workflow on the scenario roster, in dry-run mode with no instructor: group
  "A" keeps alice twice, and her membership is queried twice.\<close>

theorem team_workflow_keeps_duplicates:
  "load_students_groups scenario_roster = Inr scenario_grouped \<and>
   length scenario_grouped = 3 \<and>
   sorted_items (build_groups scenario_grouped) = [(''A'', [''alice'', ''bob'', ''alice''])] \<and>
   \<not> distinct [''alice'', ''bob'', ''alice''] \<and>
   calls (snd (main_groups in_memory (groups_run scenario_roster [] True) empty_org)) =
     [Gh_auth_status, Gh_org ''o'', Query_team ''o'' ''a'',
      Query_team_membership ''o'' ''a'' ''alice'',
      Query_team_membership ''o'' ''a'' ''bob'',
      Query_team_membership ''o'' ''a'' ''alice'']"
proof -
  have 1: "load_students_groups scenario_roster = Inr scenario_grouped"
    by code_simp
  have 2: "sorted_items (build_groups scenario_grouped) = [(''A'', [''alice'', ''bob'', ''alice''])]"
    by code_simp
  have 3: "calls (snd (main_groups in_memory (groups_run scenario_roster [] True) empty_org)) =
     [Gh_auth_status, Gh_org ''o'', Query_team ''o'' ''a'',
      Query_team_membership ''o'' ''a'' ''alice'',
      Query_team_membership ''o'' ''a'' ''bob'',
      Query_team_membership ''o'' ''a'' ''alice'']"
    by code_simp
  have 4: "length scenario_grouped = 3"
    by (simp add: scenario_grouped_def)
  show ?thesis by (simp add: 1 2 3 4)
qed

section \<open>What the loaders return\<close>





lemma strip_value_truthy: "truthy (JStr u) \<Longrightarrow> strip_value (JStr u) = Inr (strip u)"
  by (simp add: strip_value_def)




lemma strip_Nil [simp]: "strip [] = []"
  by (simp add: strip_def strip_by_def lstrip_by_def rstrip_by_def)











section \<open>Dry runs\<close>








section \<open>Slugs in the team workflow\<close>

lemma precheck_slug_wf: "is_precheck x \<Longrightarrow> call_slug_wf x"
  by (cases x) simp_all

lemma main_groups_slugs: "list_all call_slug_wf (calls (snd (main_groups c a r0)))"
proof (rule main_groups_invariant [of "\<lambda>w. list_all call_slug_wf (calls w)"])
  show "list_all call_slug_wf (calls (issue x w))"
    if "is_precheck x" "list_all call_slug_wf (calls w)" for w :: "'a world" and x
    using that by (simp add: precheck_slug_wf)
  show "list_all call_slug_wf (calls (snd (ensure_team c a g w)))"
    if "list_all call_slug_wf (calls w)" for w g
    using that by (simp add: ensure_team_calls slugify_wf)
  show "list_all call_slug_wf (calls (ensure_instructor c a (slugify g) w u))"
    if "list_all call_slug_wf (calls w)" for w g u
    using that by (simp add: ensure_instructor_calls slugify_wf)
  show "list_all call_slug_wf (calls (ensure_member c a (slugify g) w u))"
    if "list_all call_slug_wf (calls w)" for w g u
    using that by (simp add: ensure_member_calls slugify_wf)
  show "list_all call_slug_wf (calls (start r0))"
    by simp
qed

text \<open>
  C10. For every input the slug is well formed: it is not empty, it consists only of the
  letters a to z, the digits and the separator, it neither starts nor ends with the
  separator, and it has no two separators in a row. Every command of the team workflow
  that carries a team slug in its path (the team query, the membership query and the
  membership write) carries a well-formed slug, whatever the roster, the arguments and the
  remote organization.
\<close>

theorem slugs_are_well_formed:
  "slug_wf (slugify x) \<and> list_all call_slug_wf (calls (snd (main_groups c a r0)))"
  by (rule conjI) (rule slugify_wf, rule main_groups_slugs)

theorem slugs_are_well_formed_witness:
  "slug_wf (slugify ''  Group_A / b!! '') \<and>
   slugify ''  Group_A / b!! '' = ''group-a-b'' \<and>
   slugify ''!!'' = ''team'' \<and>
   list_all call_slug_wf
     (calls (snd (main_groups in_memory (groups_run scenario_roster ''ta'' False) empty_org)))"
proof -
  have 1: "slugify ''  Group_A / b!! '' = ''group-a-b''" by code_simp
  have 2: "slugify ''!!'' = ''team''" by code_simp
  from slugs_are_well_formed [of "''  Group_A / b!! ''" in_memory
      "groups_run scenario_roster ''ta'' False" empty_org]
  show ?thesis by (simp add: 1 2)
qed




section \<open>Maintainers\<close>

lemma precheck_not_write: "is_precheck x \<Longrightarrow> \<not> writes_membership og t u x"
  by (cases x) simp_all

lemma maintainer_untouched:
  assumes keeps: "keeps_maintainers c"
    and m: "team_membership c r0 (org a) t u = Some Maintainer"
  shows "team_membership c (remote (snd (main_groups c a r0))) (org a) t u = Some Maintainer \<and>
     list_all (\<lambda>x. \<not> writes_membership (org a) t u x) (calls (snd (main_groups c a r0)))"
proof (rule main_groups_invariant [of "\<lambda>w. team_membership c (remote w) (org a) t u = Some Maintainer \<and>
     list_all (\<lambda>x. \<not> writes_membership (org a) t u x) (calls w)"])
  fix w :: "'a world" and x
  assume "is_precheck x"
    and "team_membership c (remote w) (org a) t u = Some Maintainer \<and>
     list_all (\<lambda>x. \<not> writes_membership (org a) t u x) (calls w)"
  then show "team_membership c (remote (issue x w)) (org a) t u = Some Maintainer \<and>
     list_all (\<lambda>x. \<not> writes_membership (org a) t u x) (calls (issue x w))"
    by (simp add: precheck_not_write)
next
  fix w :: "'a world" and g
  assume inv: "team_membership c (remote w) (org a) t u = Some Maintainer \<and>
     list_all (\<lambda>x. \<not> writes_membership (org a) t u x) (calls w)"
  from keeps inv have "team_membership c
      (snd (create_team c (remote w) (org a) g (team_privacy a))) (org a) t u = Some Maintainer"
    by (simp add: keeps_maintainers_def)
  with inv show "team_membership c (remote (snd (ensure_team c a g w))) (org a) t u = Some Maintainer \<and>
     list_all (\<lambda>x. \<not> writes_membership (org a) t u x) (calls (snd (ensure_team c a g w)))"
    by (simp add: ensure_team_calls ensure_team_remote)
next
  fix w :: "'a world" and g u'
  assume inv: "team_membership c (remote w) (org a) t u = Some Maintainer \<and>
     list_all (\<lambda>x. \<not> writes_membership (org a) t u x) (calls w)"
  show "team_membership c (remote (ensure_instructor c a (slugify g) w u')) (org a) t u = Some Maintainer \<and>
     list_all (\<lambda>x. \<not> writes_membership (org a) t u x) (calls (ensure_instructor c a (slugify g) w u'))"
  proof (cases "(slugify g, u') = (t, u)")
    case True
    with inv show ?thesis
      by (auto simp: ensure_instructor_calls ensure_instructor_remote)
  next
    case False
    with keeps inv have "team_membership c
        (snd (add_to_team c (remote w) (org a) (slugify g) u' Maintainer)) (org a) t u = Some Maintainer"
      unfolding keeps_maintainers_def by blast
    with inv False show ?thesis
      by (auto simp: ensure_instructor_calls ensure_instructor_remote)
  qed
next
  fix w :: "'a world" and g u'
  assume inv: "team_membership c (remote w) (org a) t u = Some Maintainer \<and>
     list_all (\<lambda>x. \<not> writes_membership (org a) t u x) (calls w)"
  show "team_membership c (remote (ensure_member c a (slugify g) w u')) (org a) t u = Some Maintainer \<and>
     list_all (\<lambda>x. \<not> writes_membership (org a) t u x) (calls (ensure_member c a (slugify g) w u'))"
  proof (cases "(slugify g, u') = (t, u)")
    case True
    with inv show ?thesis
      by (auto simp: ensure_member_calls ensure_member_remote)
  next
    case False
    with keeps inv have "team_membership c
        (snd (add_to_team c (remote w) (org a) (slugify g) u' Member)) (org a) t u = Some Maintainer"
      unfolding keeps_maintainers_def by blast
    with inv False show ?thesis
      by (auto simp: ensure_member_calls ensure_member_remote)
  qed
next
  from m show "team_membership c (remote (start r0)) (org a) t u = Some Maintainer \<and>
     list_all (\<lambda>x. \<not> writes_membership (org a) t u x) (calls (start r0))"
    by simp
qed

lemma in_memory_keeps_maintainers: "keeps_maintainers in_memory"
  by (simp add: keeps_maintainers_def in_memory_def)

text \<open>
  C6. A person whose role in a team reads maintainer is never written to that team. In
  either pass, the step for that person issues the membership query and nothing else,
  prints that the person is already there and leaves the organization as it is: no
  demotion to member, no second maintainer write. Over a whole run, if the role of a
  person in a team is maintainer at the start and the remote changes a maintainer's role
  only when a command writes that very membership, then the run issues no membership
  write for that person on that team, and the role is still maintainer at the end.
\<close>

theorem maintainers_are_never_written:
  "(team_membership c (remote w) (org a) t u = Some Maintainer \<longrightarrow>
      ensure_instructor c a t w u
        = say (Instructor_already t u) (issue (Query_team_membership (org a) t u) w) \<and>
      ensure_member c a t w u
        = say (Already_in_team t u Maintainer) (issue (Query_team_membership (org a) t u) w)) \<and>
   (keeps_maintainers c \<and> team_membership c r0 (org a) t u = Some Maintainer \<longrightarrow>
      list_all (\<lambda>x. \<not> writes_membership (org a) t u x) (calls (snd (main_groups c a r0))) \<and>
      team_membership c (remote (snd (main_groups c a r0))) (org a) t u = Some Maintainer)"
proof (rule conjI; rule impI)
  assume "team_membership c (remote w) (org a) t u = Some Maintainer"
  then show "ensure_instructor c a t w u
        = say (Instructor_already t u) (issue (Query_team_membership (org a) t u) w) \<and>
      ensure_member c a t w u
        = say (Already_in_team t u Maintainer) (issue (Query_team_membership (org a) t u) w)"
    by (simp add: ensure_instructor_def ensure_member_def Let_def)
next
  assume h: "keeps_maintainers c \<and> team_membership c r0 (org a) t u = Some Maintainer"
  then have k: "keeps_maintainers c" and m: "team_membership c r0 (org a) t u = Some Maintainer"
    by simp_all
  from maintainer_untouched [OF k m]
  show "list_all (\<lambda>x. \<not> writes_membership (org a) t u x) (calls (snd (main_groups c a r0))) \<and>
      team_membership c (remote (snd (main_groups c a r0))) (org a) t u = Some Maintainer"
    by simp
qed

theorem maintainers_are_never_written_witness:
  "keeps_maintainers in_memory \<and>
   team_membership in_memory staffed_org (org (groups_run scenario_roster ''ta'' False)) ''a'' ''ta''
     = Some Maintainer \<and>
   list_all (\<lambda>x. \<not> writes_membership ''o'' ''a'' ''ta'' x)
     (calls (snd (main_groups in_memory (groups_run scenario_roster ''ta'' False) staffed_org))) \<and>
   calls (snd (main_groups in_memory (groups_run scenario_roster ''ta'' False) staffed_org)) =
     [Gh_auth_status, Gh_org ''o'', Query_team ''o'' ''a'',
      Query_team_membership ''o'' ''a'' ''ta'',
      Query_team_membership ''o'' ''a'' ''alice'', Set_team_membership ''o'' ''a'' ''alice'' Member,
      Query_team_membership ''o'' ''a'' ''bob'', Set_team_membership ''o'' ''a'' ''bob'' Member,
      Query_team_membership ''o'' ''a'' ''alice''] \<and>
   ensure_member in_memory (groups_run scenario_roster ''ta'' False) ''a'' (start staffed_org) ''ta''
     = say (Already_in_team ''a'' ''ta'' Maintainer)
         (issue (Query_team_membership ''o'' ''a'' ''ta'') (start staffed_org))"
proof -
  let ?b = "groups_run scenario_roster ''ta'' False"
  note inst = maintainers_are_never_written [of in_memory "start staffed_org" ?b "''a''" "''ta''" staffed_org]
  have o: "org ?b = ''o''" by (simp add: groups_run_def)
  have m: "team_membership in_memory staffed_org (org ?b) ''a'' ''ta'' = Some Maintainer"
    by (simp add: in_memory_def staffed_org_def)
  then have m': "team_membership in_memory (remote (start staffed_org)) (org ?b) ''a'' ''ta'' = Some Maintainer"
    by simp
  from inst in_memory_keeps_maintainers m have 1:
    "list_all (\<lambda>x. \<not> writes_membership ''o'' ''a'' ''ta'' x) (calls (snd (main_groups in_memory ?b staffed_org)))"
    unfolding o by blast
  from inst m' have 2:
    "ensure_member in_memory ?b ''a'' (start staffed_org) ''ta''
     = say (Already_in_team ''a'' ''ta'' Maintainer)
         (issue (Query_team_membership ''o'' ''a'' ''ta'') (start staffed_org))"
    unfolding o by blast
  have 3: "calls (snd (main_groups in_memory ?b staffed_org)) =
     [Gh_auth_status, Gh_org ''o'', Query_team ''o'' ''a'',
      Query_team_membership ''o'' ''a'' ''ta'',
      Query_team_membership ''o'' ''a'' ''alice'', Set_team_membership ''o'' ''a'' ''alice'' Member,
      Query_team_membership ''o'' ''a'' ''bob'', Set_team_membership ''o'' ''a'' ''bob'' Member,
      Query_team_membership ''o'' ''a'' ''alice'']"
    by code_simp
  show ?thesis
    by (intro conjI) (rule in_memory_keeps_maintainers, rule m, rule 1, rule 3, rule 2)
qed

end
